theory Spec2Isabelle
  imports Complex_Main "HOL-Library.AList"
begin

section \<open>JavaScript values\<close>

text \<open>
  The functions of the core take and return \<^verbatim>\<open>unknown\<close>. The values they meet are the JSON
  values and \<^verbatim>\<open>undefined\<close>:
  \<^item> a number is a rational: every JSON number literal is one, and so is every finite
    double. Rounding to a double, \<^verbatim>\<open>NaN\<close>, the infinities and the sign of zero are not modelled;
  \<^item> a string is a list of 8-bit characters, read as code units;
  \<^item> an object is the list of its own properties in enumeration order, keys distinct. The
    rule that integer-like keys are enumerated first is not modelled, and neither are the
    properties an object inherits from \<^verbatim>\<open>Object.prototype\<close>;
  \<^item> an array is the list of its elements, a hole being an \<open>Undefined\<close> element, together
    with the properties stored on it under keys that are not array indices
    (\<^verbatim>\<open>a[-1] = x\<close> creates one; \<^verbatim>\<open>length\<close>, iteration and \<^verbatim>\<open>JSON.stringify\<close> ignore them).
\<close>

datatype json =
    Undefined
  | Null
  | Bool bool
  | Num rat
  | Str string
  | Arr "json list" "(string \<times> json) list"
  | Obj "(string \<times> json) list"

subsection \<open>Strings and numbers of the host\<close>

definition is_digit :: "char \<Rightarrow> bool" where
  "is_digit c = (c \<in> set ''0123456789'')"

definition digit_value :: "char \<Rightarrow> nat" where
  "digit_value c = of_char c - 48"

text \<open>The decimal numeral of a natural number and of an integer (\<^verbatim>\<open>String(n)\<close>).\<close>

definition digit_char :: "nat \<Rightarrow> char" where
  "digit_char n = ''0123456789'' ! (n mod 10)"

fun nat_string :: "nat \<Rightarrow> string" where
  "nat_string n =
     (if n < 10 then [digit_char n]
      else nat_string (n div 10) @ [digit_char n])"

definition int_string :: "int \<Rightarrow> string" where
  "int_string i = (if i < 0 then CHR ''-'' # nat_string (nat (- i)) else nat_string (nat i))"

text \<open>
  The white space and line terminators that \<^verbatim>\<open>trim\<close> and \<^verbatim>\<open>parseInt\<close> skip, among the
  8-bit characters: tab, line feed, vertical tab, form feed, carriage return, space and
  no-break space.
\<close>

definition is_space :: "char \<Rightarrow> bool" where
  "is_space c = (c \<in> {CHR 0x09, CHR 0x0A, CHR 0x0B, CHR 0x0C, CHR 0x0D, CHR 0x20, CHR 0xA0})"

definition decimal :: "string \<Rightarrow> nat" where
  "decimal ds = foldl (\<lambda>n c. 10 * n + digit_value c) 0 ds"

text \<open>
  \<^verbatim>\<open>parseInt(s, 10)\<close>: leading white space is skipped, a sign is read, then the longest run
  of digits; no digit gives \<^verbatim>\<open>NaN\<close>, here \<open>None\<close>. The result is exact (a double is, below
  \<open>2^53\<close>).
\<close>

definition parseInt :: "string \<Rightarrow> int option" where
  "parseInt s =
     (let t = dropWhile is_space s;
          (neg, u) = (case t of
                        c # r \<Rightarrow> if c = CHR ''-'' then (True, r)
                                 else if c = CHR ''+'' then (False, r) else (False, t)
                      | [] \<Rightarrow> (False, t));
          ds = takeWhile is_digit u
      in if ds = [] then None
         else Some (if neg then - int (decimal ds) else int (decimal ds)))"

text \<open>\<^verbatim>\<open>String(n)\<close> for the number \<^verbatim>\<open>parseInt\<close> returned: the key of a property access by it.\<close>

definition number_key :: "int option \<Rightarrow> string" where
  "number_key n = (case n of None \<Rightarrow> ''NaN'' | Some i \<Rightarrow> int_string i)"

text \<open>\<^verbatim>\<open>Number.isInteger\<close>, and the truncation towards zero that index arguments go through.\<close>

definition is_integer :: "rat \<Rightarrow> bool" where
  "is_integer x = (of_int \<lfloor>x\<rfloor> = x)"

definition to_integer :: "rat \<Rightarrow> int" where
  "to_integer q = (if q < 0 then \<lceil>q\<rceil> else \<lfloor>q\<rfloor>)"

text \<open>
  \<^verbatim>\<open>Array.prototype.slice\<close>. Each argument is truncated to an integer; a negative one counts
  from the end, and both are clamped to the array. \<open>slice_from\<close> is the call without an
  end.
\<close>

definition relative_index :: "nat \<Rightarrow> rat \<Rightarrow> nat" where
  "relative_index len x =
     (let i = to_integer x in if i < 0 then nat (max (int len + i) 0) else nat (min i (int len)))"

definition slice :: "'a list \<Rightarrow> rat \<Rightarrow> rat \<Rightarrow> 'a list" where
  "slice xs start stop =
     (let k = relative_index (length xs) start;
          final = relative_index (length xs) stop
      in take (final - k) (drop k xs))"

definition slice_from :: "'a list \<Rightarrow> rat \<Rightarrow> 'a list" where
  "slice_from xs start = drop (relative_index (length xs) start) xs"

subsection \<open>Property access\<close>

text \<open>\<^verbatim>\<open>obj[key]\<close> on an object: the own property, or \<^verbatim>\<open>undefined\<close>.\<close>

definition obj_get :: "(string \<times> json) list \<Rightarrow> string \<Rightarrow> json" where
  "obj_get kvs k = (case map_of kvs k of Some v \<Rightarrow> v | None \<Rightarrow> Undefined)"

text \<open>
  \<^verbatim>\<open>arr[n]\<close> for a number \<open>n\<close>: the element when \<open>n\<close> is an index below the length, otherwise
  the property stored under \<^verbatim>\<open>String(n)\<close>, or \<^verbatim>\<open>undefined\<close>.
\<close>

definition arr_get :: "json list \<Rightarrow> (string \<times> json) list \<Rightarrow> int option \<Rightarrow> json" where
  "arr_get xs ps n =
     (case n of
        Some i \<Rightarrow> if 0 \<le> i \<and> i < int (length xs) then xs ! nat i else obj_get ps (number_key n)
      | None \<Rightarrow> obj_get ps (number_key n))"

text \<open>
  \<^verbatim>\<open>copy[n] = v\<close> on the copy of an array. An index below the length replaces the element; an
  index from the length up to \<open>2^32 - 2\<close> extends the array, the positions in between being
  holes; any other number (negative, larger, \<^verbatim>\<open>NaN\<close>) stores a property under \<^verbatim>\<open>String(n)\<close>.
\<close>

definition arr_set :: "json list \<Rightarrow> (string \<times> json) list \<Rightarrow> int option \<Rightarrow> json \<Rightarrow> json" where
  "arr_set xs ps n v =
     (case n of
        Some i \<Rightarrow>
          if 0 \<le> i \<and> i < int (length xs) then Arr (xs[nat i := v]) ps
          else if 0 \<le> i \<and> i < 4294967295
            then Arr (xs @ replicate (nat i - length xs) Undefined @ [v]) ps
          else Arr xs (AList.update (number_key n) v ps)
      | None \<Rightarrow> Arr xs (AList.update (number_key n) v ps))"

section \<open>Path engine (core/path)\<close>

text \<open>
  \<^verbatim>\<open>parsePath\<close> rewrites the path with four regular expressions. The first,
  \<^verbatim>\<open>/^\$\.?/\<close>, removes a leading dollar sign and the dot after it.
\<close>

fun strip_root :: "string \<Rightarrow> string" where
  "strip_root (a # b # cs) =
     (if a = CHR ''$'' then (if b = CHR ''.'' then cs else b # cs) else a # b # cs)"
| "strip_root [a] = (if a = CHR ''$'' then [] else [a])"
| "strip_root [] = []"

text \<open>
  The other three have the shape \<open>opening (class+) closing\<close>, replaced by a dot and the
  group: \<^verbatim>\<open>/\[(\d+)\]/g\<close>, \<^verbatim>\<open>/\["([^"]+)"\]/g\<close> and \<^verbatim>\<open>/\['([^']+)'\]/g\<close>. In each, the first
  character of the closing text is outside the class, so the only run of the class that the
  closing text can follow is the longest one. \<open>match_bracket\<close> tries the expression at the
  start of the text and returns the group and the text after the match.
\<close>

fun strip_prefix :: "string \<Rightarrow> string \<Rightarrow> string option" where
  "strip_prefix [] s = Some s"
| "strip_prefix (p # ps) [] = None"
| "strip_prefix (p # ps) (c # cs) = (if p = c then strip_prefix ps cs else None)"

definition match_bracket ::
  "string \<Rightarrow> (char \<Rightarrow> bool) \<Rightarrow> string \<Rightarrow> string \<Rightarrow> (string \<times> string) option" where
  "match_bracket opening cls closing s =
     (case strip_prefix opening s of
        None \<Rightarrow> None
      | Some r \<Rightarrow>
          (let g = takeWhile cls r in
           if g = [] then None
           else (case strip_prefix closing (dropWhile cls r) of
                   None \<Rightarrow> None
                 | Some rest \<Rightarrow> Some (g, rest))))"

lemma strip_prefix_length: "strip_prefix p s = Some r \<Longrightarrow> length r \<le> length s"
  by (induction p s rule: strip_prefix.induct) (auto split: if_splits)

lemma match_bracket_shorter:
  assumes "match_bracket opening cls closing s = Some (g, rest)"
  shows "length rest < length s"
proof -
  from assms obtain r where r: "strip_prefix opening s = Some r"
    and g: "takeWhile cls r \<noteq> []"
    and rest: "strip_prefix closing (dropWhile cls r) = Some rest"
    by (auto simp: match_bracket_def Let_def split: option.splits if_splits)
  have "length (takeWhile cls r) + length (dropWhile cls r) = length r"
    by (metis length_append takeWhile_dropWhile_id)
  moreover have "0 < length (takeWhile cls r)" using g by simp
  ultimately have "length (dropWhile cls r) < length r" by linarith
  with strip_prefix_length [OF rest] strip_prefix_length [OF r] show ?thesis by linarith
qed

text \<open>
  The global replacement: from left to right, a match is replaced by \<^verbatim>\<open>.$1\<close> and the scan goes
  on after it; where there is no match the character is kept.
\<close>

function replace_brackets :: "string \<Rightarrow> (char \<Rightarrow> bool) \<Rightarrow> string \<Rightarrow> string \<Rightarrow> string" where
  "replace_brackets opening cls closing [] = []"
| "replace_brackets opening cls closing (c # cs) =
     (case match_bracket opening cls closing (c # cs) of
        Some (g, rest) \<Rightarrow> CHR ''.'' # g @ replace_brackets opening cls closing rest
      | None \<Rightarrow> c # replace_brackets opening cls closing cs)"
  by pat_completeness auto
termination
  by (relation "measure (\<lambda>(opening, cls, closing, s). length s)")
     (auto dest: match_bracket_shorter)

text \<open>\<^verbatim>\<open>s.split(d)\<close> for a one-character separator: never empty, \<^verbatim>\<open>''.split('.')\<close> is \<^verbatim>\<open>['']\<close>.\<close>

fun split :: "char \<Rightarrow> string \<Rightarrow> string list" where
  "split d [] = [[]]"
| "split d (c # cs) =
     (if c = d then [] # split d cs
      else (case split d cs of x # xs \<Rightarrow> (c # x) # xs | [] \<Rightarrow> [[c]]))"

definition parsePath :: "string \<Rightarrow> string list" where
  "parsePath path =
     (let normalized = strip_root path;
          normalized = replace_brackets ''['' is_digit '']'' normalized;
          normalized = replace_brackets [CHR ''['', CHR 0x22] (\<lambda>c. c \<noteq> CHR 0x22) [CHR 0x22, CHR '']''] normalized;
          normalized = replace_brackets [CHR ''['', CHR 0x27] (\<lambda>c. c \<noteq> CHR 0x27) [CHR 0x27, CHR '']''] normalized
      in filter (\<lambda>s. s \<noteq> []) (split CHR ''.'' normalized))"

text \<open>
  \<^verbatim>\<open>getByPath\<close>, lines 9 to 30. \<open>getByPath_loop\<close> is the \<^verbatim>\<open>for\<close> loop over the segments, with
  \<^verbatim>\<open>current\<close> as its first argument.
\<close>

fun getByPath_loop :: "json \<Rightarrow> string list \<Rightarrow> json" where
  "getByPath_loop current [] = current"
| "getByPath_loop current (segment # segments) =
     (case current of
        Null \<Rightarrow> Undefined
      | Undefined \<Rightarrow> Undefined
      | Arr xs ps \<Rightarrow>
          (let index = parseInt segment in
           if index = None then Undefined
           else getByPath_loop (arr_get xs ps index) segments)
      | Obj kvs \<Rightarrow> getByPath_loop (obj_get kvs segment) segments
      | _ \<Rightarrow> Undefined)"

definition getByPath :: "json \<Rightarrow> string \<Rightarrow> json" where
  "getByPath obj path =
     (if path = ''$'' \<or> path = [] then obj else getByPath_loop obj (parsePath path))"

text \<open>
  \<^verbatim>\<open>setBySegments(current, segments, index, value)\<close>, lines 43 to 79. The model takes the
  segments from \<^verbatim>\<open>index\<close> on, so \<^verbatim>\<open>index === segments.length\<close> is the empty list,
  \<^verbatim>\<open>segments[index]\<close> its head and \<^verbatim>\<open>segments[index + 1]\<close> the head of its tail. The copy
  \<^verbatim>\<open>[...current]\<close> of an array has its elements only, while \<^verbatim>\<open>current[arrIndex]\<close> reads the
  original.
\<close>

definition all_digits :: "string \<Rightarrow> bool" where
  "all_digits s = (s \<noteq> [] \<and> list_all is_digit s)"

fun setBySegments :: "json \<Rightarrow> string list \<Rightarrow> json \<Rightarrow> json" where
  "setBySegments current [] v = v"
| "setBySegments current (segment # segments) v =
     (case current of
        Arr xs ps \<Rightarrow>
          (let arrIndex = parseInt segment
           in arr_set xs [] arrIndex (setBySegments (arr_get xs ps arrIndex) segments v))
      | Obj kvs \<Rightarrow>
          Obj (AList.update segment (setBySegments (obj_get kvs segment) segments v) kvs)
      | _ \<Rightarrow>
          (let isArrayIndex = (case segments of [] \<Rightarrow> False | nextSegment # _ \<Rightarrow> all_digits nextSegment);
               container = (if isArrayIndex then Arr [] [] else Obj [])
           in Obj [(segment, setBySegments container segments v)]))"

definition setByPath :: "json \<Rightarrow> string \<Rightarrow> json \<Rightarrow> json" where
  "setByPath obj path v =
     (if path = ''$'' \<or> path = [] then v else setBySegments obj (parsePath path) v)"

section \<open>History manager (hooks/useUndoRedo)\<close>

text \<open>
  The hook keeps three mutable cells: \<^verbatim>\<open>historyRef\<close> (the entries), \<^verbatim>\<open>positionRef\<close>
  (the cursor) and \<^verbatim>\<open>lastUpdateTime\<close>. They are the fields of the state record, and every
  callback takes the state and returns the new one. \<^verbatim>\<open>Date.now()\<close>, an integer, is an
  input of \<^verbatim>\<open>set\<close>. The two options are numbers that the hook does not check, so they are
  rationals here, and so is the position, which \<^verbatim>\<open>set\<close> computes from \<^verbatim>\<open>maxHistory\<close>.
  \<^verbatim>\<open>NaN\<close> and the infinities are not modelled.
\<close>

record undo_redo_options =
  maxHistory :: rat
  groupingInterval :: rat

definition default_options :: undo_redo_options where
  "default_options = \<lparr>maxHistory = 100, groupingInterval = 300\<rparr>"

record 'a undo_redo =
  history :: "'a list"
  position :: rat
  lastUpdateTime :: int

definition useUndoRedo :: "'a \<Rightarrow> 'a undo_redo" where
  "useUndoRedo initialValue = \<lparr>history = [initialValue], position = 0, lastUpdateTime = 0\<rparr>"

text \<open>
  \<^verbatim>\<open>set(value)\<close>, lines 38 to 72. \<^verbatim>\<open>slice\<close> truncates \<^verbatim>\<open>pos\<close> and \<^verbatim>\<open>trimCount\<close>; the
  subtraction \<^verbatim>\<open>newPos - trimCount\<close> does not.
\<close>

definition set_value :: "undo_redo_options \<Rightarrow> int \<Rightarrow> 'a \<Rightarrow> 'a undo_redo \<Rightarrow> 'a undo_redo" where
  "set_value opts now v s =
     (let shouldGroup = (of_int (now - lastUpdateTime s) < groupingInterval opts);
          prev = history s;
          pos = position s;
          (newHistory, newPos) =
            (if shouldGroup \<and> pos > 0
             then (slice prev 0 pos @ [v], pos)
             else (slice prev 0 (pos + 1) @ [v], pos + 1));
          (newHistory, newPos) =
            (if of_nat (length newHistory) > maxHistory opts
             then (let trimCount = of_nat (length newHistory) - maxHistory opts
                   in (slice_from newHistory trimCount, newPos - trimCount))
             else (newHistory, newPos))
      in \<lparr>history = newHistory, position = max 0 newPos, lastUpdateTime = now\<rparr>)"

definition undo :: "'a undo_redo \<Rightarrow> 'a undo_redo" where
  "undo s = (if position s > 0 then s\<lparr>position := position s - 1\<rparr> else s)"

definition redo :: "'a undo_redo \<Rightarrow> 'a undo_redo" where
  "redo s = (if position s < of_nat (length (history s)) - 1
             then s\<lparr>position := position s + 1\<rparr> else s)"

definition reset :: "'a \<Rightarrow> 'a undo_redo \<Rightarrow> 'a undo_redo" where
  "reset v s = \<lparr>history = [v], position = 0, lastUpdateTime = 0\<rparr>"

text \<open>The derived fields of the returned object, lines 98 to 107.\<close>

definition canUndo :: "'a undo_redo \<Rightarrow> bool" where
  "canUndo s = (position s > 0)"

definition canRedo :: "'a undo_redo \<Rightarrow> bool" where
  "canRedo s = (position s < of_nat (length (history s)) - 1)"

definition historyLength :: "'a undo_redo \<Rightarrow> int" where
  "historyLength s = int (length (history s))"

text \<open>
  A run of \<^verbatim>\<open>set\<close> calls, each with the clock value it reads, and the condition that every
  call of the run finds the elapsed time at least the grouping interval.
\<close>

fun set_calls :: "undo_redo_options \<Rightarrow> (int \<times> 'a) list \<Rightarrow> 'a undo_redo \<Rightarrow> 'a undo_redo" where
  "set_calls opts [] s = s"
| "set_calls opts ((now, v) # cs) s = set_calls opts cs (set_value opts now v s)"

fun non_grouped :: "undo_redo_options \<Rightarrow> (int \<times> 'a) list \<Rightarrow> 'a undo_redo \<Rightarrow> bool" where
  "non_grouped opts [] s = True"
| "non_grouped opts ((now, v) # cs) s =
     (of_int (now - lastUpdateTime s) \<ge> groupingInterval opts
      \<and> non_grouped opts cs (set_value opts now v s))"

text \<open>The states the hook can be in: the initial one, and any state a callback leaves.\<close>

inductive reachable :: "undo_redo_options \<Rightarrow> 'a undo_redo \<Rightarrow> bool" for opts where
  r_init: "reachable opts (useUndoRedo v)"
| r_set: "reachable opts s \<Longrightarrow> reachable opts (set_value opts now v s)"
| r_undo: "reachable opts s \<Longrightarrow> reachable opts (undo s)"
| r_redo: "reachable opts s \<Longrightarrow> reachable opts (redo s)"
| r_reset: "reachable opts s \<Longrightarrow> reachable opts (reset v s)"

text \<open>The position is an index of the history: a whole number from 0 to below the length.\<close>

definition position_ok :: "'a undo_redo \<Rightarrow> bool" where
  "position_ok s =
     (is_integer (position s) \<and> 0 \<le> position s \<and> position s < of_nat (length (history s)))"

section \<open>The host\<close>

text \<open>
  The core calls functions of the JavaScript runtime that the repository does not define.
  Those whose result the engine or the locale decides are parameters of the model:
  \<^item> \<open>number_toString\<close>: the decimal text of a number (\<^verbatim>\<open>String(n)\<close>, template literals,
    \<^verbatim>\<open>JSON.stringify\<close>);
  \<^item> \<open>regexp_test\<close>: \<^verbatim>\<open>new RegExp(pattern).test(text)\<close>, or \<open>None\<close> when the constructor
    throws a \<^verbatim>\<open>SyntaxError\<close>;
  \<^item> \<open>regexp_search\<close>: \<^verbatim>\<open>new RegExp(pattern, flags)\<close> for the flags \<^verbatim>\<open>g\<close> and \<^verbatim>\<open>gi\<close> (the boolean
    is \<^verbatim>\<open>ignoreCase\<close>), \<open>None\<close> when the constructor throws. The compiled expression is
    the function that, given a text and a start index, returns the index and the length of
    the first match at or after the start;
  \<^item> \<open>localeCompare\<close>: \<^verbatim>\<open>a.localeCompare(b)\<close>;
  \<^item> \<open>syntax_error_message\<close>: the message of the \<^verbatim>\<open>SyntaxError\<close> that \<^verbatim>\<open>JSON.parse\<close> throws for a
    text it rejects.
\<close>

type_synonym matcher = "string \<Rightarrow> nat \<Rightarrow> (nat \<times> nat) option"

record host =
  number_toString :: "rat \<Rightarrow> string"
  regexp_test :: "string \<Rightarrow> string \<Rightarrow> bool option"
  regexp_search :: "string \<Rightarrow> bool \<Rightarrow> matcher option"
  localeCompare :: "string \<Rightarrow> string \<Rightarrow> int"
  syntax_error_message :: "string \<Rightarrow> string"

datatype js_error = SyntaxError

subsection \<open>\<^verbatim>\<open>JSON.stringify\<close>\<close>

text \<open>\<^verbatim>\<open>Array.prototype.join\<close> on strings.\<close>

fun join :: "string \<Rightarrow> string list \<Rightarrow> string" where
  "join sep [] = []"
| "join sep [x] = x"
| "join sep (x # y # ys) = x @ sep @ join sep (y # ys)"

definition hex_digit :: "nat \<Rightarrow> char" where
  "hex_digit n = ''0123456789abcdef'' ! (n mod 16)"

text \<open>
  \<^verbatim>\<open>QuoteJSONString\<close>: the quotation mark and the backslash are escaped, the control
  characters have their short escape or \<^verbatim>\<open>\u00XX\<close>.
\<close>

definition quote_char :: "char \<Rightarrow> string" where
  "quote_char c =
     (if c = CHR 0x22 then [CHR 0x5C, CHR 0x22]
      else if c = CHR 0x5C then [CHR 0x5C, CHR 0x5C]
      else if c = CHR 0x08 then [CHR 0x5C, CHR ''b'']
      else if c = CHR 0x09 then [CHR 0x5C, CHR ''t'']
      else if c = CHR 0x0A then [CHR 0x5C, CHR ''n'']
      else if c = CHR 0x0C then [CHR 0x5C, CHR ''f'']
      else if c = CHR 0x0D then [CHR 0x5C, CHR ''r'']
      else if (of_char c :: nat) < 32
        then [CHR 0x5C, CHR ''u'', CHR ''0'', CHR ''0'',
              hex_digit (of_char c div 16), hex_digit (of_char c)]
      else [c])"

definition QuoteJSONString :: "string \<Rightarrow> string" where
  "QuoteJSONString s = CHR 0x22 # concat (map quote_char s) @ [CHR 0x22]"

text \<open>
  \<^verbatim>\<open>SerializeJSONProperty\<close> with the gap and the current indentation. \<open>None\<close> is the result
  \<^verbatim>\<open>undefined\<close>: a property with that result is left out of its object, an element with
  that result is written \<^verbatim>\<open>null\<close>.
\<close>

fun SerializeJSONProperty :: "(rat \<Rightarrow> string) \<Rightarrow> string \<Rightarrow> string \<Rightarrow> json \<Rightarrow> string option" where
  "SerializeJSONProperty num gap indent Undefined = None"
| "SerializeJSONProperty num gap indent Null = Some ''null''"
| "SerializeJSONProperty num gap indent (Bool b) = Some (if b then ''true'' else ''false'')"
| "SerializeJSONProperty num gap indent (Num n) = Some (num n)"
| "SerializeJSONProperty num gap indent (Str s) = Some (QuoteJSONString s)"
| "SerializeJSONProperty num gap indent (Arr xs ps) =
     (let stepback = indent;
          indent = indent @ gap;
          partial = map (\<lambda>x. case SerializeJSONProperty num gap indent x of
                                None \<Rightarrow> ''null'' | Some s \<Rightarrow> s) xs
      in Some (if partial = [] then ''[]''
               else if gap = [] then ''['' @ join '','' partial @ '']''
               else ''['' @ [CHR 0x0A] @ indent @ join ('','' @ [CHR 0x0A] @ indent) partial
                    @ [CHR 0x0A] @ stepback @ '']''))"
| "SerializeJSONProperty num gap indent (Obj kvs) =
     (let stepback = indent;
          indent = indent @ gap;
          partial = concat (map (\<lambda>(k, v). case SerializeJSONProperty num gap indent v of
                                None \<Rightarrow> []
                              | Some s \<Rightarrow> [QuoteJSONString k @ (if gap = [] then '':'' else '': '') @ s]) kvs)
      in Some (if partial = [] then ''{}''
               else if gap = [] then ''{'' @ join '','' partial @ ''}''
               else ''{'' @ [CHR 0x0A] @ indent @ join ('','' @ [CHR 0x0A] @ indent) partial
                    @ [CHR 0x0A] @ stepback @ ''}''))"

text \<open>
  The third argument of \<^verbatim>\<open>JSON.stringify\<close>: absent, a number of spaces (at most ten), or a
  string (its first ten characters).
\<close>

datatype space = NoSpace | SpaceCount nat | SpaceString string

definition gap_of :: "space \<Rightarrow> string" where
  "gap_of sp = (case sp of
      NoSpace \<Rightarrow> []
    | SpaceCount n \<Rightarrow> replicate (min 10 n) CHR '' ''
    | SpaceString s \<Rightarrow> take 10 s)"

definition JSON_stringify :: "host \<Rightarrow> json \<Rightarrow> space \<Rightarrow> string option" where
  "JSON_stringify h v sp = SerializeJSONProperty (number_toString h) (gap_of sp) [] v"

section \<open>Validator (core/validator)\<close>

text \<open>
  \<^verbatim>\<open>JSONSchema\<close> is a loosely typed record; the validator reads the fields below and casts
  each to the type it expects (\<^verbatim>\<open>schema.minLength as number\<close>). The model gives each field
  that type, absent fields being \<open>None\<close>: the schema is a trusted input.
\<close>

datatype schema_type = TypeName string | TypeNames "string list"

datatype JSONSchema = JSONSchema
    (type_field: "schema_type option")
    (enum: "json list option")
    (minLength: "rat option")
    (maxLength: "rat option")
    (pattern: "string option")
    (minimum: "rat option")
    (maximum: "rat option")
    (exclusiveMinimum: "rat option")
    (exclusiveMaximum: "rat option")
    (multipleOf: "rat option")
    (minItems: "rat option")
    (maxItems: "rat option")
    (uniqueItems: "bool option")
    (items: "schema_items option")
    (required: "string list option")
    (minProperties: "rat option")
    (maxProperties: "rat option")
    (properties: "(string \<times> JSONSchema) list option")
    (additionalProperties: "schema_additional option")
and schema_items = ItemSchema JSONSchema | ItemSchemas "JSONSchema list"
and schema_additional = AdditionalBool bool | AdditionalSchema JSONSchema

text \<open>The schema \<^verbatim>\<open>{}\<close>, and the schemas of the statements below written as object literals.\<close>

definition empty_schema :: JSONSchema where
  "empty_schema = JSONSchema None None None None None None None None None None None None None
                    None None None None None None"

definition with_type :: "schema_type \<Rightarrow> JSONSchema \<Rightarrow> JSONSchema" where
  "with_type t s = (case s of JSONSchema a b c d e f g h i j k l m n p q r u w \<Rightarrow>
                      JSONSchema (Some t) b c d e f g h i j k l m n p q r u w)"

definition with_enum :: "json list \<Rightarrow> JSONSchema \<Rightarrow> JSONSchema" where
  "with_enum vs s = (case s of JSONSchema a b c d e f g h i j k l m n p q r u w \<Rightarrow>
                       JSONSchema a (Some vs) c d e f g h i j k l m n p q r u w)"

definition with_minimum :: "rat \<Rightarrow> JSONSchema \<Rightarrow> JSONSchema" where
  "with_minimum x s = (case s of JSONSchema a b c d e f g h i j k l m n p q r u w \<Rightarrow>
                         JSONSchema a b c d e (Some x) g h i j k l m n p q r u w)"

datatype ValidationSeverity = error | warning | info

text \<open>
  \<^verbatim>\<open>ValidationError\<close> as \<^verbatim>\<open>makeError\<close> builds it: \<^verbatim>\<open>line\<close> and \<^verbatim>\<open>column\<close> are never set.
  An argument that is left out is \<^verbatim>\<open>undefined\<close>.
\<close>

record ValidationError =
  message :: string
  path :: string
  severity :: ValidationSeverity
  schemaKeyword :: string
  schemaRule :: json
  actualValue :: json

record ValidationResult =
  valid :: bool
  errors :: "ValidationError list"

definition makeError :: "string \<Rightarrow> string \<Rightarrow> string \<Rightarrow> json \<Rightarrow> json \<Rightarrow> ValidationError" where
  "makeError msg p keyword rule actual =
     \<lparr>message = msg, path = p, severity = error, schemaKeyword = keyword,
      schemaRule = rule, actualValue = actual\<rparr>"

definition result_of :: "ValidationError list \<Rightarrow> ValidationResult" where
  "result_of es = \<lparr>valid = (length es = 0), errors = es\<rparr>"

subsection \<open>Helpers\<close>

definition getJsonType :: "json \<Rightarrow> string" where
  "getJsonType v = (case v of
      Null \<Rightarrow> ''null''
    | Arr xs ps \<Rightarrow> ''array''
    | Num n \<Rightarrow> if is_integer n then ''integer'' else ''number''
    | Undefined \<Rightarrow> ''undefined''
    | Bool b \<Rightarrow> ''boolean''
    | Str s \<Rightarrow> ''string''
    | Obj kvs \<Rightarrow> ''object'')"

definition typeof :: "json \<Rightarrow> string" where
  "typeof v = (case v of
      Undefined \<Rightarrow> ''undefined''
    | Null \<Rightarrow> ''object''
    | Bool b \<Rightarrow> ''boolean''
    | Num n \<Rightarrow> ''number''
    | Str s \<Rightarrow> ''string''
    | Arr xs ps \<Rightarrow> ''object''
    | Obj kvs \<Rightarrow> ''object'')"

text \<open>
  \<^verbatim>\<open>a === b\<close>. Two primitives are identical when they are equal. Two objects are identical
  when they are the same reference, which a value does not record: the model says no, and
  \<^verbatim>\<open>deepEqual\<close> then compares their texts, which gives the same answer for one object
  compared with itself.
\<close>

definition strict_equal :: "json \<Rightarrow> json \<Rightarrow> bool" where
  "strict_equal a b = (case a of Arr xs ps \<Rightarrow> False | Obj kvs \<Rightarrow> False | _ \<Rightarrow> a = b)"

definition deepEqual :: "host \<Rightarrow> json \<Rightarrow> json \<Rightarrow> bool" where
  "deepEqual h a b =
     (if strict_equal a b then True
      else if typeof a \<noteq> typeof b then False
      else if a = Null \<or> b = Null then False
      else if typeof a \<noteq> ''object'' then False
      else JSON_stringify h a NoSpace = JSON_stringify h b NoSpace)"

text \<open>A schema type as a value, and as the text a template literal gives it.\<close>

definition type_value :: "schema_type \<Rightarrow> json" where
  "type_value t = (case t of TypeName s \<Rightarrow> Str s | TypeNames ts \<Rightarrow> Arr (map Str ts) [])"

definition type_text :: "schema_type \<Rightarrow> string" where
  "type_text t = (case t of TypeName s \<Rightarrow> s | TypeNames ts \<Rightarrow> join '','' ts)"

text \<open>\<^verbatim>\<open>if (schema.type)\<close>: an empty string is falsy, an array never is.\<close>

definition type_truthy :: "schema_type option \<Rightarrow> bool" where
  "type_truthy t = (case t of None \<Rightarrow> False | Some (TypeName s) \<Rightarrow> s \<noteq> [] | Some (TypeNames ts) \<Rightarrow> True)"

text \<open>
  \<^verbatim>\<open>x % m\<close> on numbers: the remainder has the sign of \<open>x\<close>; it is \<^verbatim>\<open>NaN\<close> (\<open>None\<close>) for
  \<open>m = 0\<close>.
\<close>

definition remainder :: "rat \<Rightarrow> rat \<Rightarrow> rat option" where
  "remainder x m = (if m = 0 then None else Some (x - m * of_int (to_integer (x / m))))"

subsection \<open>The checks of one node\<close>

text \<open>Lines 21 to 26: the value is \<^verbatim>\<open>undefined\<close> or \<^verbatim>\<open>null\<close>.\<close>

definition validate_null :: "JSONSchema \<Rightarrow> string \<Rightarrow> ValidationError list" where
  "validate_null schema p =
     (case type_field schema of
        Some t \<Rightarrow>
          if type_truthy (Some t) \<and> t \<noteq> TypeName ''null''
          then [makeError (''Expected type '' @ [CHR 0x22] @ type_text t @ [CHR 0x22] @ '', got null'')
                  p ''type'' (type_value t) Undefined]
          else []
      | None \<Rightarrow> [])"

text \<open>Lines 29 to 47: type validation.\<close>

definition validate_type :: "json \<Rightarrow> JSONSchema \<Rightarrow> string \<Rightarrow> ValidationError list" where
  "validate_type v schema p =
     (case type_field schema of
        Some t \<Rightarrow>
          if type_truthy (Some t) then
            (let actualType = getJsonType v;
                 allowedTypes = (case t of TypeNames ts \<Rightarrow> ts | TypeName s \<Rightarrow> [s]);
                 typeMatches = (actualType \<in> set allowedTypes
                                \<or> (actualType = ''integer'' \<and> ''number'' \<in> set allowedTypes))
             in if \<not> typeMatches
                then [makeError (''Expected type '' @ [CHR 0x22] @ join '' | '' allowedTypes @ [CHR 0x22]
                                  @ '', got '' @ [CHR 0x22] @ actualType @ [CHR 0x22])
                        p ''type'' (type_value t) v]
                else [])
          else []
      | None \<Rightarrow> [])"

text \<open>Lines 50 to 62: enum validation.\<close>

definition validate_enum :: "host \<Rightarrow> json \<Rightarrow> JSONSchema \<Rightarrow> string \<Rightarrow> ValidationError list" where
  "validate_enum h v schema p =
     (case enum schema of
        Some es \<Rightarrow>
          if \<not> list_ex (\<lambda>e. deepEqual h e v) es
          then [makeError (''Value must be one of: ''
                            @ join '', '' (map (\<lambda>e. case JSON_stringify h e NoSpace of
                                                      Some s \<Rightarrow> s | None \<Rightarrow> []) es))
                  p ''enum'' (Arr es []) v]
          else []
      | None \<Rightarrow> [])"

text \<open>Lines 65 to 102: string validations. The pattern is compiled only for a string.\<close>

definition validate_string ::
  "host \<Rightarrow> json \<Rightarrow> JSONSchema \<Rightarrow> string \<Rightarrow> js_error + ValidationError list" where
  "validate_string h v schema p =
     (case v of
        Str s \<Rightarrow>
          (let e1 = (case minLength schema of
                       Some m \<Rightarrow> if of_nat (length s) < m
                         then [makeError (''String must be at least '' @ number_toString h m @ '' characters'')
                                 p ''minLength'' (Num m) v]
                         else []
                     | None \<Rightarrow> []);
               e2 = (case maxLength schema of
                       Some m \<Rightarrow> if of_nat (length s) > m
                         then [makeError (''String must be at most '' @ number_toString h m @ '' characters'')
                                 p ''maxLength'' (Num m) v]
                         else []
                     | None \<Rightarrow> [])
           in (case pattern schema of
                 Some pat \<Rightarrow>
                   if pat \<noteq> [] then
                     (case regexp_test h pat s of
                        None \<Rightarrow> Inl SyntaxError
                      | Some ok \<Rightarrow>
                          Inr (e1 @ e2 @
                            (if \<not> ok
                             then [makeError (''String must match pattern '' @ [CHR 0x22] @ pat @ [CHR 0x22])
                                     p ''pattern'' (Str pat) v]
                             else [])))
                   else Inr (e1 @ e2)
               | None \<Rightarrow> Inr (e1 @ e2)))
      | _ \<Rightarrow> Inr [])"

text \<open>Lines 105 to 149: number validations.\<close>

definition validate_number :: "host \<Rightarrow> json \<Rightarrow> JSONSchema \<Rightarrow> string \<Rightarrow> ValidationError list" where
  "validate_number h v schema p =
     (case v of
        Num x \<Rightarrow>
          (case minimum schema of
             Some m \<Rightarrow> if x < m
               then [makeError (''Value must be >= '' @ number_toString h m) p ''minimum'' (Num m) v]
               else []
           | None \<Rightarrow> [])
          @ (case maximum schema of
             Some m \<Rightarrow> if x > m
               then [makeError (''Value must be <= '' @ number_toString h m) p ''maximum'' (Num m) v]
               else []
           | None \<Rightarrow> [])
          @ (case exclusiveMinimum schema of
             Some m \<Rightarrow> if x \<le> m
               then [makeError (''Value must be > '' @ number_toString h m) p ''exclusiveMinimum'' (Num m) v]
               else []
           | None \<Rightarrow> [])
          @ (case exclusiveMaximum schema of
             Some m \<Rightarrow> if x \<ge> m
               then [makeError (''Value must be < '' @ number_toString h m) p ''exclusiveMaximum'' (Num m) v]
               else []
           | None \<Rightarrow> [])
          @ (case multipleOf schema of
             Some m \<Rightarrow> if remainder x m \<noteq> Some 0
               then [makeError (''Value must be a multiple of '' @ number_toString h m)
                       p ''multipleOf'' (Num m) v]
               else []
           | None \<Rightarrow> [])
      | _ \<Rightarrow> [])"

text \<open>Lines 153 to 180: the array checks before the items.\<close>

definition validate_array :: "host \<Rightarrow> json \<Rightarrow> JSONSchema \<Rightarrow> string \<Rightarrow> ValidationError list" where
  "validate_array h v schema p =
     (case v of
        Arr xs ps \<Rightarrow>
          (case minItems schema of
             Some m \<Rightarrow> if of_nat (length xs) < m
               then [makeError (''Array must have at least '' @ number_toString h m @ '' items'')
                       p ''minItems'' (Num m) v]
               else []
           | None \<Rightarrow> [])
          @ (case maxItems schema of
             Some m \<Rightarrow> if of_nat (length xs) > m
               then [makeError (''Array must have at most '' @ number_toString h m @ '' items'')
                       p ''maxItems'' (Num m) v]
               else []
           | None \<Rightarrow> [])
          @ (if uniqueItems schema = Some True
                \<and> length (remdups (map (\<lambda>x. JSON_stringify h x NoSpace) xs)) \<noteq> length xs
             then [makeError ''Array items must be unique'' p ''uniqueItems'' (Bool True) v]
             else [])
      | _ \<Rightarrow> [])"

text \<open>Lines 195 to 227: the object checks before the properties.\<close>

definition validate_object :: "host \<Rightarrow> json \<Rightarrow> JSONSchema \<Rightarrow> string \<Rightarrow> ValidationError list" where
  "validate_object h v schema p =
     (case v of
        Obj kvs \<Rightarrow>
          (let keys = map fst kvs in
           (case required schema of
              Some reqs \<Rightarrow>
                concat (map (\<lambda>req. if req \<notin> set keys
                    then [makeError (''Missing required property '' @ [CHR 0x22] @ req @ [CHR 0x22])
                            p ''required'' (Arr (map Str reqs) []) Undefined]
                    else []) reqs)
            | None \<Rightarrow> [])
           @ (case minProperties schema of
              Some m \<Rightarrow> if of_nat (length keys) < m
                then [makeError (''Object must have at least '' @ number_toString h m @ '' properties'')
                        p ''minProperties'' (Num m) v]
                else []
            | None \<Rightarrow> [])
           @ (case maxProperties schema of
              Some m \<Rightarrow> if of_nat (length keys) > m
                then [makeError (''Object must have at most '' @ number_toString h m @ '' properties'')
                        p ''maxProperties'' (Num m) v]
                else []
            | None \<Rightarrow> []))
      | _ \<Rightarrow> [])"

subsection \<open>\<^verbatim>\<open>validateSchema\<close>\<close>

text \<open>
  The errors of a node are pushed in the order of the checks. \<open>validate_items\<close> is the
  \<^verbatim>\<open>forEach\<close> of lines 183 to 186 from the given index on, \<open>validate_properties\<close> the loop
  of lines 232 to 247 over the remaining keys. A \<^verbatim>\<open>SyntaxError\<close> of \<^verbatim>\<open>new RegExp\<close> leaves
  through every caller. \<^verbatim>\<open>forEach\<close> does not visit the holes of an array; the model, where a
  hole is an \<open>Undefined\<close> element, validates it as it does an element that is \<^verbatim>\<open>undefined\<close>.
\<close>

function (sequential) validate_errors :: "host \<Rightarrow> json \<Rightarrow> JSONSchema \<Rightarrow> string \<Rightarrow> js_error + ValidationError list"
and validate_items :: "host \<Rightarrow> json list \<Rightarrow> nat \<Rightarrow> JSONSchema \<Rightarrow> string \<Rightarrow> js_error + ValidationError list"
and validate_properties ::
  "host \<Rightarrow> (string \<times> json) list \<Rightarrow> (string \<times> JSONSchema) list \<Rightarrow> bool \<Rightarrow> string
     \<Rightarrow> js_error + ValidationError list"
where
  "validate_errors h v schema p =
     (if v = Undefined \<or> v = Null then Inr (validate_null schema p)
      else
        (case validate_string h v schema p of
           Inl e \<Rightarrow> Inl e
         | Inr string_errors \<Rightarrow>
             (case (case v of
                      Arr xs ps \<Rightarrow>
                        (case items schema of
                           Some (ItemSchema item_schema) \<Rightarrow> validate_items h xs 0 item_schema p
                         | _ \<Rightarrow> Inr [])
                    | _ \<Rightarrow> Inr []) of
                Inl e \<Rightarrow> Inl e
              | Inr item_errors \<Rightarrow>
                  (case (case v of
                           Obj kvs \<Rightarrow>
                             (case properties schema of
                                Some props \<Rightarrow>
                                  validate_properties h kvs props
                                    (additionalProperties schema = Some (AdditionalBool False)) p
                              | None \<Rightarrow> Inr [])
                         | _ \<Rightarrow> Inr []) of
                     Inl e \<Rightarrow> Inl e
                   | Inr property_errors \<Rightarrow>
                       Inr (validate_type v schema p @ validate_enum h v schema p @ string_errors
                            @ validate_number h v schema p
                            @ validate_array h v schema p @ item_errors
                            @ validate_object h v schema p @ property_errors)))))"
| "validate_items h [] index item_schema p = Inr []"
| "validate_items h (item # rest) index item_schema p =
     (case validate_errors h item item_schema (p @ ''['' @ nat_string index @ '']'') of
        Inl e \<Rightarrow> Inl e
      | Inr es \<Rightarrow>
          (case validate_items h rest (Suc index) item_schema p of
             Inl e \<Rightarrow> Inl e
           | Inr es' \<Rightarrow> Inr (es @ es')))"
| "validate_properties h [] props strict p = Inr []"
| "validate_properties h ((key, v) # rest) props strict p =
     (case (case map_of props key of
              Some prop_schema \<Rightarrow> validate_errors h v prop_schema (p @ ''.'' @ key)
            | None \<Rightarrow>
                Inr (if strict
                     then [makeError (''Unexpected property '' @ [CHR 0x22] @ key @ [CHR 0x22])
                             (p @ ''.'' @ key) ''additionalProperties'' (Bool False) v]
                     else [])) of
        Inl e \<Rightarrow> Inl e
      | Inr es \<Rightarrow>
          (case validate_properties h rest props strict p of
             Inl e \<Rightarrow> Inl e
           | Inr es' \<Rightarrow> Inr (es @ es')))"
  by pat_completeness auto
termination
  by (relation "measure (\<lambda>x. case x of
          Inl (h, v, schema, p) \<Rightarrow> size v
        | Inr (Inl (h, xs, index, item_schema, p)) \<Rightarrow> size_list size xs
        | Inr (Inr (h, kvs, props, strict, p)) \<Rightarrow> size_list (size_prod (\<lambda>k. 0) size) kvs)")
     auto

definition validateSchema :: "host \<Rightarrow> json \<Rightarrow> JSONSchema \<Rightarrow> string \<Rightarrow> js_error + ValidationResult" where
  "validateSchema h v schema p =
     (case validate_errors h v schema p of Inl e \<Rightarrow> Inl e | Inr es \<Rightarrow> Inr (result_of es))"

section \<open>Tree builder (components/TreeEditor)\<close>

datatype JsonNodeType = TString | TNumber | TBoolean | TNull | TObject | TArray

datatype node_key = KeyName string | KeyIndex nat

text \<open>\<^verbatim>\<open>TreeNodeData\<close>; the selectors carry the prefix \<open>node_\<close>.\<close>

datatype TreeNodeData = TreeNodeData
    (node_id: string)
    (node_key: node_key)
    (node_value: json)
    (node_type: JsonNodeType)
    (node_path: string)
    (node_depth: int)
    (node_expanded: bool)
    (node_children: "TreeNodeData list")
    (node_childCount: nat)

text \<open>\<^verbatim>\<open>getType\<close>, lines 203 to 212: what is none of the six types is shown as a string.\<close>

definition getType :: "json \<Rightarrow> JsonNodeType" where
  "getType v = (case v of
      Null \<Rightarrow> TNull
    | Arr xs ps \<Rightarrow> TArray
    | Str s \<Rightarrow> TString
    | Num n \<Rightarrow> TNumber
    | Bool b \<Rightarrow> TBoolean
    | Obj kvs \<Rightarrow> TObject
    | Undefined \<Rightarrow> TString)"

text \<open>
  \<^verbatim>\<open>buildTree\<close>, lines 156 to 201; \<open>None\<close> is \<^verbatim>\<open>null\<close>. \<open>buildTree_keys\<close> is
  \<^verbatim>\<open>keys.map(k => buildTree(obj[k], ...)).filter(Boolean)\<close> over the remaining keys, and
  \<open>buildTree_items\<close> is \<^verbatim>\<open>arr.map((item, i) => buildTree(item, ...)).filter(Boolean)\<close> from
  index \<open>i\<close> on: a child that is \<^verbatim>\<open>undefined\<close> gives \<^verbatim>\<open>null\<close> and is filtered out.
\<close>

function (sequential) buildTree :: "json \<Rightarrow> string \<Rightarrow> node_key \<Rightarrow> int \<Rightarrow> string set \<Rightarrow> TreeNodeData option"
and buildTree_keys :: "(string \<times> json) list \<Rightarrow> string \<Rightarrow> int \<Rightarrow> string set \<Rightarrow> TreeNodeData list"
and buildTree_items :: "json list \<Rightarrow> nat \<Rightarrow> string \<Rightarrow> int \<Rightarrow> string set \<Rightarrow> TreeNodeData list"
where
  "buildTree Undefined p key depth expandedPaths = None"
| "buildTree (Obj kvs) p key depth expandedPaths =
     (let expanded = (p \<in> expandedPaths)
      in Some (TreeNodeData p key (Obj kvs) (getType (Obj kvs)) p depth expanded
                 (if expanded then buildTree_keys kvs p (depth + 1) expandedPaths else [])
                 (length (map fst kvs))))"
| "buildTree (Arr xs ps) p key depth expandedPaths =
     (let expanded = (p \<in> expandedPaths)
      in Some (TreeNodeData p key (Arr xs ps) (getType (Arr xs ps)) p depth expanded
                 (if expanded then buildTree_items xs 0 p (depth + 1) expandedPaths else [])
                 (length xs)))"
| "buildTree v p key depth expandedPaths =
     Some (TreeNodeData p key v (getType v) p depth (p \<in> expandedPaths) [] 0)"
| "buildTree_keys [] p depth expandedPaths = []"
| "buildTree_keys ((k, v) # rest) p depth expandedPaths =
     (case buildTree v (p @ ''.'' @ k) (KeyName k) depth expandedPaths of
        None \<Rightarrow> buildTree_keys rest p depth expandedPaths
      | Some node \<Rightarrow> node # buildTree_keys rest p depth expandedPaths)"
| "buildTree_items [] i p depth expandedPaths = []"
| "buildTree_items (item # rest) i p depth expandedPaths =
     (case buildTree item (p @ ''['' @ nat_string i @ '']'') (KeyIndex i) depth expandedPaths of
        None \<Rightarrow> buildTree_items rest (Suc i) p depth expandedPaths
      | Some node \<Rightarrow> node # buildTree_items rest (Suc i) p depth expandedPaths)"
  by pat_completeness auto
termination
  by (relation "measure (\<lambda>x. case x of
          Inl (v, p, key, depth, expandedPaths) \<Rightarrow> size v
        | Inr (Inl (kvs, p, depth, expandedPaths)) \<Rightarrow> size_list (size_prod (\<lambda>k. 0) size) kvs
        | Inr (Inr (xs, i, p, depth, expandedPaths)) \<Rightarrow> size_list size xs)")
     auto

section \<open>Search engine (hooks/useSearch)\<close>

record SearchMatch =
  line :: nat
  columnStart :: nat
  columnEnd :: nat
  matchText :: string

text \<open>\<^verbatim>\<open>escapeRegex\<close>, line 130: a backslash before each metacharacter.\<close>

definition escapeRegex :: "string \<Rightarrow> string" where
  "escapeRegex str =
     concat (map (\<lambda>c. if c \<in> set ''.*+?^${}()|[]'' \<or> c = CHR 0x5C then [CHR 0x5C, c] else [c]) str)"

text \<open>
  The \<^verbatim>\<open>while\<close> loop of lines 69 to 78 on one line of the text, with \<^verbatim>\<open>regex.lastIndex\<close> as
  the last argument. \<^verbatim>\<open>regex.exec(line)\<close> on a global expression returns \<^verbatim>\<open>null\<close> when
  \<^verbatim>\<open>lastIndex\<close> is beyond the end of the line or nothing matches from it on; otherwise it
  returns the first match and sets \<^verbatim>\<open>lastIndex\<close> to its end. The loop then adds one to
  \<^verbatim>\<open>lastIndex\<close> when it equals \<^verbatim>\<open>match.index\<close>. \<open>None\<close> is a loop that does not end.
\<close>

partial_function (option) exec_loop :: "matcher \<Rightarrow> string \<Rightarrow> nat \<Rightarrow> nat \<Rightarrow> SearchMatch list option" where
  "exec_loop regex line_text lineIdx lastIndex =
     (if lastIndex > length line_text then Some []
      else (case regex line_text lastIndex of
              None \<Rightarrow> Some []
            | Some (index, len) \<Rightarrow>
                Option.bind
                  (exec_loop regex line_text lineIdx
                     (if index = index + len then index + len + 1 else index + len))
                  (\<lambda>results. Some (\<lparr>line = lineIdx + 1, columnStart = index,
                                      columnEnd = index + len,
                                      matchText = take len (drop index line_text)\<rparr> # results))))"

text \<open>The \<^verbatim>\<open>for\<close> loop over the lines, lines 63 to 79, from line index \<open>lineIdx\<close> on.\<close>

fun scan_lines :: "matcher \<Rightarrow> string list \<Rightarrow> nat \<Rightarrow> SearchMatch list option" where
  "scan_lines regex [] lineIdx = Some []"
| "scan_lines regex (l # ls) lineIdx =
     Option.bind (exec_loop regex l lineIdx 0)
       (\<lambda>results. Option.bind (scan_lines regex ls (Suc lineIdx))
          (\<lambda>more. Some (results @ more)))"

text \<open>
  The \<^verbatim>\<open>useMemo\<close> body, lines 52 to 86: a function of the query, the text and the two
  options. The \<^verbatim>\<open>catch\<close> returns no match for an expression the host rejects.
\<close>

definition matches :: "host \<Rightarrow> string \<Rightarrow> string \<Rightarrow> bool \<Rightarrow> bool \<Rightarrow> SearchMatch list option" where
  "matches h query text caseSensitive useRegex =
     (if query = [] \<or> text = [] then Some []
      else (let pat = (if useRegex then query else escapeRegex query)
            in (case regexp_search h pat (\<not> caseSensitive) of
                  None \<Rightarrow> Some []
                | Some regex \<Rightarrow> scan_lines regex (split CHR 0x0A text) 0)))"

text \<open>
  What the model asks of the host's expressions: a match reported for a start index begins
  at or after it and lies within the text.
\<close>

definition matcher_ok :: "matcher \<Rightarrow> bool" where
  "matcher_ok regex =
     (\<forall>text start index len. regex text start = Some (index, len)
         \<longrightarrow> start \<le> index \<and> index + len \<le> length text)"

definition host_ok :: "host \<Rightarrow> bool" where
  "host_ok h = (\<forall>pat ignoreCase regex. regexp_search h pat ignoreCase = Some regex \<longrightarrow> matcher_ok regex)"

text \<open>
  One match lies before another: on an earlier line, or on the same line, ending where the
  other begins or earlier, and beginning strictly earlier.
\<close>

definition precedes :: "SearchMatch \<Rightarrow> SearchMatch \<Rightarrow> bool" where
  "precedes a b =
     (line a < line b
      \<or> (line a = line b \<and> columnEnd a \<le> columnStart b \<and> columnStart a < columnStart b))"

section \<open>Parser (core/parser)\<close>

subsection \<open>\<^verbatim>\<open>JSON.parse\<close>\<close>

text \<open>
  \<^verbatim>\<open>JSON.parse\<close> is the host's, and what it accepts is fixed by the JSON grammar (ECMA-404).
  The model is a recursive descent over that grammar; \<open>None\<close> is the \<^verbatim>\<open>SyntaxError\<close>. The
  white space of the grammar is the space, the tab, the line feed and the carriage return.
\<close>

definition json_ws :: "char \<Rightarrow> bool" where
  "json_ws c = (c \<in> {CHR 0x20, CHR 0x09, CHR 0x0A, CHR 0x0D})"

definition skip_ws :: "string \<Rightarrow> string" where
  "skip_ws s = dropWhile json_ws s"

definition hex_value :: "char \<Rightarrow> nat option" where
  "hex_value c =
     (if is_digit c then Some (digit_value c)
      else if c \<in> set ''abcdef'' then Some (of_char c - 87)
      else if c \<in> set ''ABCDEF'' then Some (of_char c - 55)
      else None)"

definition unescape :: "char \<Rightarrow> char option" where
  "unescape e =
     (if e = CHR 0x22 \<or> e = CHR 0x5C \<or> e = CHR ''/'' then Some e
      else if e = CHR ''b'' then Some (CHR 0x08)
      else if e = CHR ''f'' then Some (CHR 0x0C)
      else if e = CHR ''n'' then Some (CHR 0x0A)
      else if e = CHR ''r'' then Some (CHR 0x0D)
      else if e = CHR ''t'' then Some (CHR 0x09)
      else None)"

text \<open>
  The characters of a string after its opening quotation mark, up to the closing one. A
  control character must be escaped. The code unit of \<^verbatim>\<open>\uXXXX\<close> is kept modulo 256, the
  characters of the model having eight bits.
\<close>

fun parse_string_chars :: "string \<Rightarrow> (string \<times> string) option" where
  "parse_string_chars [] = None"
| "parse_string_chars (c # cs) =
     (if c = CHR 0x22 then Some ([], cs)
      else if c = CHR 0x5C then
        (case cs of
           [] \<Rightarrow> None
         | e # r \<Rightarrow>
             if e = CHR ''u'' then
               (case r of
                  a # b # c2 # d # r' \<Rightarrow>
                    (case (hex_value a, hex_value b, hex_value c2, hex_value d) of
                       (Some w, Some x, Some y, Some z) \<Rightarrow>
                         map_option (\<lambda>(str, rest). (char_of (4096 * w + 256 * x + 16 * y + z) # str, rest))
                           (parse_string_chars r')
                     | _ \<Rightarrow> None)
                | _ \<Rightarrow> None)
             else
               (case unescape e of
                  None \<Rightarrow> None
                | Some x \<Rightarrow> map_option (\<lambda>(str, rest). (x # str, rest)) (parse_string_chars r)))
      else if (of_char c :: nat) < 32 then None
      else map_option (\<lambda>(str, rest). (c # str, rest)) (parse_string_chars cs))"

text \<open>
  A number: an optional minus sign, an integer part without a leading zero (or a single
  zero), an optional fraction, an optional exponent. Each part returns what it read and the
  text after it.
\<close>

definition parse_sign :: "string \<Rightarrow> bool \<times> string" where
  "parse_sign s = (case s of
      c # r \<Rightarrow> if c = CHR ''-'' then (True, r) else (False, s)
    | [] \<Rightarrow> (False, s))"

definition parse_int_digits :: "string \<Rightarrow> (string \<times> string) option" where
  "parse_int_digits s = (case s of
      c # r \<Rightarrow>
        if c = CHR ''0'' then Some (''0'', r)
        else if takeWhile is_digit s = [] then None
        else Some (takeWhile is_digit s, dropWhile is_digit s)
    | [] \<Rightarrow> None)"

definition parse_fraction :: "string \<Rightarrow> (string \<times> string) option" where
  "parse_fraction s = (case s of
      c # r \<Rightarrow>
        if c = CHR ''.'' then
          (if takeWhile is_digit r = [] then None
           else Some (takeWhile is_digit r, dropWhile is_digit r))
        else Some ([], s)
    | [] \<Rightarrow> Some ([], s))"

definition parse_exponent :: "string \<Rightarrow> (int \<times> string) option" where
  "parse_exponent s = (case s of
      c # r \<Rightarrow>
        if c = CHR ''e'' \<or> c = CHR ''E'' then
          (let (eneg, r1) = (case r of
                               d # r' \<Rightarrow> if d = CHR ''-'' then (True, r')
                                         else if d = CHR ''+'' then (False, r')
                                         else (False, r)
                             | [] \<Rightarrow> (False, r))
           in if takeWhile is_digit r1 = [] then None
              else Some (if eneg then - int (decimal (takeWhile is_digit r1))
                         else int (decimal (takeWhile is_digit r1)),
                         dropWhile is_digit r1))
        else Some (0, s)
    | [] \<Rightarrow> Some (0, s))"

definition parse_number :: "string \<Rightarrow> (rat \<times> string) option" where
  "parse_number s =
     (let (neg, s1) = parse_sign s in
      case parse_int_digits s1 of
        None \<Rightarrow> None
      | Some (int_digits, s2) \<Rightarrow>
          (case parse_fraction s2 of
             None \<Rightarrow> None
           | Some (frac_digits, s3) \<Rightarrow>
               (case parse_exponent s3 of
                  None \<Rightarrow> None
                | Some (e, rest) \<Rightarrow>
                    (let mantissa = of_nat (decimal int_digits)
                                    + of_nat (decimal frac_digits) / 10 ^ length frac_digits;
                         scaled = (if e < 0 then mantissa / 10 ^ nat (- e) else mantissa * 10 ^ nat e)
                     in Some (if neg then - scaled else scaled, rest)))))"

text \<open>
  A value at the start of the text, then the elements of an array after its opening bracket
  and the members of an object after its opening brace, each with what was read so far.
  A member whose key was read before replaces the value of that key. The first argument
  bounds the depth of the calls; \<open>JSON_parse\<close> starts with more than twice the length of
  the text, which is never used up (\<open>JSON_parse_fuel\<close> below).
\<close>

fun parse_value :: "nat \<Rightarrow> string \<Rightarrow> (json \<times> string) option"
and parse_elements :: "nat \<Rightarrow> string \<Rightarrow> json list \<Rightarrow> (json \<times> string) option"
and parse_members :: "nat \<Rightarrow> string \<Rightarrow> (string \<times> json) list \<Rightarrow> (json \<times> string) option"
where
  "parse_value 0 s = None"
| "parse_value (Suc n) s =
     (case s of
        [] \<Rightarrow> None
      | c # cs \<Rightarrow>
          if c = CHR ''{'' then
            (case skip_ws cs of
               [] \<Rightarrow> None
             | d # r \<Rightarrow> if d = CHR ''}'' then Some (Obj [], r) else parse_members n (d # r) [])
          else if c = CHR ''['' then
            (case skip_ws cs of
               [] \<Rightarrow> None
             | d # r \<Rightarrow> if d = CHR '']'' then Some (Arr [] [], r) else parse_elements n (d # r) [])
          else if c = CHR 0x22 then
            map_option (\<lambda>(str, rest). (Str str, rest)) (parse_string_chars cs)
          else if c = CHR ''t'' then map_option (\<lambda>rest. (Bool True, rest)) (strip_prefix ''true'' s)
          else if c = CHR ''f'' then map_option (\<lambda>rest. (Bool False, rest)) (strip_prefix ''false'' s)
          else if c = CHR ''n'' then map_option (\<lambda>rest. (Null, rest)) (strip_prefix ''null'' s)
          else map_option (\<lambda>(x, rest). (Num x, rest)) (parse_number s))"
| "parse_elements 0 s acc = None"
| "parse_elements (Suc n) s acc =
     (case parse_value n s of
        None \<Rightarrow> None
      | Some (v, r) \<Rightarrow>
          (case skip_ws r of
             [] \<Rightarrow> None
           | c # r' \<Rightarrow>
               if c = CHR '','' then parse_elements n (skip_ws r') (acc @ [v])
               else if c = CHR '']'' then Some (Arr (acc @ [v]) [], r')
               else None))"
| "parse_members 0 s acc = None"
| "parse_members (Suc n) s acc =
     (case s of
        [] \<Rightarrow> None
      | q # cs \<Rightarrow>
          if q \<noteq> CHR 0x22 then None
          else
            (case parse_string_chars cs of
               None \<Rightarrow> None
             | Some (k, r) \<Rightarrow>
                 (case skip_ws r of
                    [] \<Rightarrow> None
                  | c # r1 \<Rightarrow>
                      if c \<noteq> CHR '':'' then None
                      else
                        (case parse_value n (skip_ws r1) of
                           None \<Rightarrow> None
                         | Some (v, r2) \<Rightarrow>
                             (case skip_ws r2 of
                                [] \<Rightarrow> None
                              | d # r3 \<Rightarrow>
                                  if d = CHR '','' then parse_members n (skip_ws r3) (AList.update k v acc)
                                  else if d = CHR ''}'' then Some (Obj (AList.update k v acc), r3)
                                  else None)))))"

definition JSON_parse :: "string \<Rightarrow> json option" where
  "JSON_parse text =
     (case parse_value (2 * length text + 2) (skip_ws text) of
        None \<Rightarrow> None
      | Some (v, rest) \<Rightarrow> if skip_ws rest = [] then Some v else None)"

subsection \<open>\<^verbatim>\<open>parseJson\<close> and its error\<close>

text \<open>\<^verbatim>\<open>String.prototype.trim\<close>.\<close>

definition trim :: "string \<Rightarrow> string" where
  "trim s = rev (dropWhile is_space (rev (dropWhile is_space s)))"

record ParseError =
  error_message :: string
  error_line :: int
  error_column :: int
  error_offset :: int

record ParseResult =
  result_value :: json
  result_error :: "ParseError option"

text \<open>\<^verbatim>\<open>getLineColFromOffset\<close>, lines 68 to 83: the loop runs over the text before the offset.\<close>

fun line_col_loop :: "string \<Rightarrow> int \<Rightarrow> int \<Rightarrow> int \<Rightarrow> int \<times> int" where
  "line_col_loop [] i lineNo lastNewline = (lineNo, lastNewline)"
| "line_col_loop (c # cs) i lineNo lastNewline =
     (if c = CHR 0x0A then line_col_loop cs (i + 1) (lineNo + 1) i
      else line_col_loop cs (i + 1) lineNo lastNewline)"

definition getLineColFromOffset :: "string \<Rightarrow> int \<Rightarrow> int \<times> int" where
  "getLineColFromOffset text offset =
     (let (lineNo, lastNewline) = line_col_loop (take (nat offset) text) 0 1 (- 1)
      in (lineNo, offset - lastNewline))"

text \<open>\<^verbatim>\<open>getOffsetFromLineCol\<close>, lines 86 to 97.\<close>

fun offset_loop :: "string \<Rightarrow> int \<Rightarrow> int \<Rightarrow> int \<Rightarrow> int \<Rightarrow> int option" where
  "offset_loop [] i currentLine lineNo col = None"
| "offset_loop (c # cs) i currentLine lineNo col =
     (if currentLine = lineNo then Some (i + col - 1)
      else offset_loop cs (i + 1) (if c = CHR 0x0A then currentLine + 1 else currentLine) lineNo col)"

definition getOffsetFromLineCol :: "string \<Rightarrow> int \<Rightarrow> int \<Rightarrow> int" where
  "getOffsetFromLineCol text lineNo col =
     (case offset_loop text 0 1 lineNo col of Some k \<Rightarrow> k | None \<Rightarrow> int (length text))"

text \<open>
  The two searches in the message: \<^verbatim>\<open>/at position (\d+)/\<close> and
  \<^verbatim>\<open>/at line (\d+) column (\d+)/\<close>, each returning its groups at the first place it matches.
\<close>

fun match_position :: "string \<Rightarrow> string option" where
  "match_position [] = None"
| "match_position (c # cs) =
     (case strip_prefix ''at position '' (c # cs) of
        Some r \<Rightarrow> if takeWhile is_digit r \<noteq> [] then Some (takeWhile is_digit r)
                  else match_position cs
      | None \<Rightarrow> match_position cs)"

definition line_column_at :: "string \<Rightarrow> (string \<times> string \<times> string) option" where
  "line_column_at s =
     (case strip_prefix ''at line '' s of
        None \<Rightarrow> None
      | Some r \<Rightarrow>
          if takeWhile is_digit r = [] then None
          else (case strip_prefix '' column '' (dropWhile is_digit r) of
                  None \<Rightarrow> None
                | Some r2 \<Rightarrow>
                    if takeWhile is_digit r2 = [] then None
                    else Some (takeWhile is_digit r, takeWhile is_digit r2, dropWhile is_digit r2)))"

fun match_line_column :: "string \<Rightarrow> (string \<times> string) option" where
  "match_line_column [] = None"
| "match_line_column (c # cs) =
     (case line_column_at (c # cs) of
        Some (l, k, rest) \<Rightarrow> Some (l, k)
      | None \<Rightarrow> match_line_column cs)"

text \<open>
  The clean-up: \<^verbatim>\<open>/^JSON\.parse: /\<close> removes a prefix; \<^verbatim>\<open>/ at position \d+.*$/\<close> and
  \<^verbatim>\<open>/ at line \d+ column \d+.*$/\<close> remove a clause together with the rest of the message.
  The dot matches no line terminator, so such a clause matches only where no line
  terminator follows it.
\<close>

definition no_line_terminator :: "string \<Rightarrow> bool" where
  "no_line_terminator s = (CHR 0x0A \<notin> set s \<and> CHR 0x0D \<notin> set s)"

definition position_clause :: "string \<Rightarrow> bool" where
  "position_clause s =
     (case strip_prefix '' at position '' s of
        None \<Rightarrow> False
      | Some r \<Rightarrow> takeWhile is_digit r \<noteq> [] \<and> no_line_terminator r)"

definition line_column_clause :: "string \<Rightarrow> bool" where
  "line_column_clause s =
     (case s of
        c # r \<Rightarrow> c = CHR '' '' \<and>
          (case line_column_at r of None \<Rightarrow> False | Some (l, k, rest) \<Rightarrow> no_line_terminator rest)
      | [] \<Rightarrow> False)"

fun remove_clause :: "(string \<Rightarrow> bool) \<Rightarrow> string \<Rightarrow> string" where
  "remove_clause clause [] = []"
| "remove_clause clause (c # cs) = (if clause (c # cs) then [] else c # remove_clause clause cs)"

definition remove_prefix :: "string \<Rightarrow> string \<Rightarrow> string" where
  "remove_prefix p s = (case strip_prefix p s of Some r \<Rightarrow> r | None \<Rightarrow> s)"

text \<open>\<^verbatim>\<open>extractParseError\<close>, lines 31 to 65, from the message of the error.\<close>

definition extractParseError :: "string \<Rightarrow> string \<Rightarrow> ParseError" where
  "extractParseError msg text =
     (let posMatch = match_position msg;
          lineColMatch = match_line_column msg;
          (lineNo, col, offset) =
            (case lineColMatch of
               Some (l, k) \<Rightarrow>
                 (int (decimal l), int (decimal k),
                  getOffsetFromLineCol text (int (decimal l)) (int (decimal k)))
             | None \<Rightarrow>
                 (case posMatch of
                    Some p \<Rightarrow>
                      (fst (getLineColFromOffset text (int (decimal p))),
                       snd (getLineColFromOffset text (int (decimal p))),
                       int (decimal p))
                  | None \<Rightarrow> (1, 1, - 1)));
          cleanMessage = remove_clause line_column_clause
                           (remove_clause position_clause (remove_prefix ''JSON.parse: '' msg))
      in \<lparr>error_message = (if cleanMessage = [] then ''Invalid JSON'' else cleanMessage),
          error_line = lineNo, error_column = col, error_offset = max 0 offset\<rparr>)"

text \<open>\<^verbatim>\<open>parseJson\<close>, lines 13 to 25, and \<^verbatim>\<open>isValidJson\<close>, lines 114 to 121.\<close>

definition parseJson :: "host \<Rightarrow> string \<Rightarrow> ParseResult" where
  "parseJson h text =
     (if trim text = [] then \<lparr>result_value = Undefined, result_error = None\<rparr>
      else (case JSON_parse text of
              Some v \<Rightarrow> \<lparr>result_value = v, result_error = None\<rparr>
            | None \<Rightarrow> \<lparr>result_value = Undefined,
                        result_error = Some (extractParseError (syntax_error_message h text) text)\<rparr>))"

definition isValidJson :: "string \<Rightarrow> bool" where
  "isValidJson text = (case JSON_parse text of Some v \<Rightarrow> True | None \<Rightarrow> False)"

section \<open>Formatter (core/formatter)\<close>

datatype IndentationType = Indent2 | Indent4 | IndentTab

definition space_of :: "IndentationType \<Rightarrow> space" where
  "space_of indent = (case indent of
      IndentTab \<Rightarrow> SpaceString [CHR 0x09]
    | Indent2 \<Rightarrow> SpaceCount 2
    | Indent4 \<Rightarrow> SpaceCount 4)"

text \<open>
  In the three functions the whole body is inside \<^verbatim>\<open>try\<close>, and the \<^verbatim>\<open>catch\<close> returns the
  text: the result is a string in every case. \<^verbatim>\<open>JSON.stringify\<close> returns \<^verbatim>\<open>undefined\<close> only
  for \<^verbatim>\<open>undefined\<close>, which \<^verbatim>\<open>JSON.parse\<close> never returns; that branch is there to make the
  definitions total.
\<close>

definition formatJson :: "host \<Rightarrow> string \<Rightarrow> IndentationType \<Rightarrow> string" where
  "formatJson h text indent =
     (case JSON_parse text of
        None \<Rightarrow> text
      | Some parsed \<Rightarrow>
          (case JSON_stringify h parsed (space_of indent) of Some s \<Rightarrow> s | None \<Rightarrow> text))"

definition minifyJson :: "host \<Rightarrow> string \<Rightarrow> string" where
  "minifyJson h text =
     (case JSON_parse text of
        None \<Rightarrow> text
      | Some parsed \<Rightarrow> (case JSON_stringify h parsed NoSpace of Some s \<Rightarrow> s | None \<Rightarrow> text))"

text \<open>
  The order of \<^verbatim>\<open>sortJsonKeys\<close>: \<^verbatim>\<open>'asc'\<close>, \<^verbatim>\<open>'desc'\<close> or a comparator, taken here as a
  function that returns. \<^verbatim>\<open>Array.prototype.sort\<close> is stable; for a consistent comparator
  its result is the one of the insertion sort below.
\<close>

datatype sort_order = Asc | Desc | Comparator "string \<Rightarrow> string \<Rightarrow> int"

definition comparator_of :: "host \<Rightarrow> sort_order \<Rightarrow> string \<Rightarrow> string \<Rightarrow> int" where
  "comparator_of h order = (case order of
      Comparator f \<Rightarrow> f
    | Desc \<Rightarrow> (\<lambda>a b. localeCompare h b a)
    | Asc \<Rightarrow> (\<lambda>a b. localeCompare h a b))"

fun insert_key :: "(string \<Rightarrow> string \<Rightarrow> int) \<Rightarrow> string \<times> json \<Rightarrow> (string \<times> json) list \<Rightarrow> (string \<times> json) list" where
  "insert_key cmp x [] = [x]"
| "insert_key cmp x (y # ys) =
     (if cmp (fst x) (fst y) > 0 then y # insert_key cmp x ys else x # y # ys)"

definition sort_keys :: "(string \<Rightarrow> string \<Rightarrow> int) \<Rightarrow> (string \<times> json) list \<Rightarrow> (string \<times> json) list" where
  "sort_keys cmp kvs = foldr (insert_key cmp) kvs []"

text \<open>
  \<^verbatim>\<open>deepSortKeys\<close>, lines 168 to 194. The source sorts the keys and then sorts inside each
  value; the model sorts inside the values first, which gives the same object.
\<close>

fun deepSortKeys :: "host \<Rightarrow> sort_order \<Rightarrow> json \<Rightarrow> json" where
  "deepSortKeys h order (Arr xs ps) = Arr (map (deepSortKeys h order) xs) []"
| "deepSortKeys h order (Obj kvs) =
     Obj (sort_keys (comparator_of h order) (map (\<lambda>(k, v). (k, deepSortKeys h order v)) kvs))"
| "deepSortKeys h order v = v"

definition sortJsonKeys :: "host \<Rightarrow> string \<Rightarrow> sort_order \<Rightarrow> IndentationType \<Rightarrow> string" where
  "sortJsonKeys h text order indent =
     (case JSON_parse text of
        None \<Rightarrow> text
      | Some parsed \<Rightarrow>
          (case JSON_stringify h (deepSortKeys h order parsed) (space_of indent) of
             Some s \<Rightarrow> s | None \<Rightarrow> text))"

section \<open>A host for the examples\<close>

text \<open>
  The examples below run on a small host. Its numbers print as the decimal text of their
  integer part (the examples use integers only), its regular expressions are literal texts
  compared code unit by code unit, and \<^verbatim>\<open>localeCompare\<close> compares code units.
\<close>

fun literal_from :: "string \<Rightarrow> string \<Rightarrow> nat \<Rightarrow> nat option" where
  "literal_from needle [] i = (if needle = [] then Some i else None)"
| "literal_from needle (c # cs) i =
     (if take (length needle) (c # cs) = needle then Some i
      else literal_from needle cs (Suc i))"

definition literal_matcher :: "string \<Rightarrow> matcher" where
  "literal_matcher needle subject start =
     (if start > length subject then None
      else map_option (\<lambda>i. (i, length needle)) (literal_from needle (drop start subject) start))"

fun compare_codes :: "string \<Rightarrow> string \<Rightarrow> int" where
  "compare_codes [] [] = 0"
| "compare_codes [] (b # bs) = - 1"
| "compare_codes (a # as) [] = 1"
| "compare_codes (a # as) (b # bs) =
     (if (of_char a :: nat) < of_char b then - 1
      else if (of_char b :: nat) < of_char a then 1
      else compare_codes as bs)"

definition example_host :: host where
  "example_host =
     \<lparr>number_toString = (\<lambda>r. int_string \<lfloor>r\<rfloor>),
      regexp_test = (\<lambda>pat s. Some (literal_from pat s 0 \<noteq> None)),
      regexp_search = (\<lambda>pat ignoreCase. Some (literal_matcher pat)),
      localeCompare = compare_codes,
      syntax_error_message = (\<lambda>t. ''Unexpected token in JSON at position 0'')\<rparr>"

text \<open>A host on which every regular expression is the empty one, matching at every index.\<close>

definition empty_matcher :: matcher where
  "empty_matcher subject start = (if start \<le> length subject then Some (start, 0) else None)"

definition empty_regexp_host :: host where
  "empty_regexp_host = example_host\<lparr>regexp_search := (\<lambda>pat ignoreCase. Some empty_matcher)\<rparr>"

section \<open>Properties\<close>

subsection \<open>History manager\<close>

text \<open>\<^verbatim>\<open>slice\<close> at whole arguments.\<close>

lemma to_integer_of_int: "to_integer (of_int k) = k"
  by (simp add: to_integer_def)

lemma relative_index_of_int: "0 \<le> k \<Longrightarrow> relative_index n (of_int k) = min (nat k) n"
  by (auto simp: relative_index_def to_integer_of_int Let_def min_def)

lemma slice_prefix: "0 \<le> k \<Longrightarrow> slice xs 0 (of_int k) = take (nat k) xs"
  using relative_index_of_int [of 0 "length xs"] relative_index_of_int [of k "length xs"]
  by (simp add: slice_def Let_def min_def)

lemma slice_from_of_int: "0 \<le> k \<Longrightarrow> slice_from xs (of_int k) = drop (nat k) xs"
  by (simp add: slice_from_def relative_index_of_int min_def)

lemma is_integerD: "is_integer x \<Longrightarrow> x = of_int \<lfloor>x\<rfloor>"
  unfolding is_integer_def by (rule sym)

lemma position_okD:
  assumes "position_ok s"
  obtains k where "position s = of_int k" "0 \<le> k" "k < int (length (history s))"
proof -
  let ?k = "\<lfloor>position s\<rfloor>"
  from assms have "of_int ?k = position s"
    unfolding position_ok_def is_integer_def by (elim conjE)
  then have p: "position s = of_int ?k" by (rule sym)
  from assms have "0 \<le> position s" "position s < of_nat (length (history s))"
    by (simp_all add: position_ok_def)
  then have "0 \<le> ?k" "?k < int (length (history s))"
    by (simp_all add: floor_less_iff)
  with p that show thesis by blast
qed

lemma position_okI:
  "position s = of_int k \<Longrightarrow> 0 \<le> k \<Longrightarrow> k < int (length (history s)) \<Longrightarrow> position_ok s"
  by (simp add: position_ok_def is_integer_def)

lemma len_take_snoc:
  "0 \<le> k \<Longrightarrow> k \<le> int (length xs) \<Longrightarrow> int (length (take (nat k) xs @ [v])) = k + 1"
  by (simp add: min_def) linarith

lemma set_value_whole:
  assumes p: "position s = of_int k" and k0: "0 \<le> k"
  shows "set_value opts now v s =
     (let g = (of_int (now - lastUpdateTime s) < groupingInterval opts \<and> 0 < k);
          h = (if g then take (nat k) (history s) @ [v] else take (nat (k + 1)) (history s) @ [v]);
          q = (if g then k else k + 1)
      in if of_nat (length h) > maxHistory opts
         then \<lparr>history = slice_from h (of_nat (length h) - maxHistory opts),
               position = max 0 (of_int q - (of_nat (length h) - maxHistory opts)),
               lastUpdateTime = now\<rparr>
         else \<lparr>history = h, position = of_int q, lastUpdateTime = now\<rparr>)"
proof -
  have a: "slice (history s) 0 (of_int k) = take (nat k) (history s)"
    using k0 by (rule slice_prefix)
  have "slice (history s) 0 (of_int (k + 1)) = take (nat (k + 1)) (history s)"
    using k0 by (intro slice_prefix) simp
  then have b: "slice (history s) 0 (of_int k + 1) = take (nat (k + 1)) (history s)" by simp
  have c: "max 0 (rat_of_int k) = of_int k" "max 0 (rat_of_int k + 1) = of_int k + 1"
    using k0 by simp_all
  show ?thesis
    by (simp add: set_value_def Let_def p a b c)
qed

lemma set_value_append:
  assumes ok: "position_ok s"
    and ng: "\<not> (of_int (now - lastUpdateTime s) < groupingInterval opts \<and> position s > 0)"
    and room: "position s + 2 \<le> maxHistory opts"
  shows "set_value opts now v s =
           \<lparr>history = take (nat (\<lfloor>position s\<rfloor> + 1)) (history s) @ [v],
            position = position s + 1, lastUpdateTime = now\<rparr>"
proof -
  from ok obtain k where k: "position s = of_int k" "0 \<le> k" "k < int (length (history s))"
    by (rule position_okD)
  let ?h = "take (nat (k + 1)) (history s) @ [v]"
  have len: "int (length ?h) = k + 2"
    using k len_take_snoc [of "k + 1" "history s" v] by simp
  have len': "rat_of_nat (length ?h) = of_int (k + 2)"
    using len by (metis of_int_of_nat_eq)
  have G: "(of_int (now - lastUpdateTime s) < groupingInterval opts \<and> 0 < k) = False"
    using ng k(1) by simp
  have F: "(maxHistory opts < rat_of_nat (length ?h)) = False"
    using room k(1) unfolding len' by simp
  have "set_value opts now v s = \<lparr>history = ?h, position = of_int (k + 1), lastUpdateTime = now\<rparr>"
    unfolding set_value_whole [OF k(1,2)] Let_def G if_False F ..
  then show ?thesis by (simp add: k(1))
qed


lemma set_value_position_ok:
  assumes whole: "is_integer (maxHistory opts)" and m1: "1 \<le> maxHistory opts" and ok: "position_ok s"
  shows "position_ok (set_value opts now v s)"
    and "rat_of_nat (length (history (set_value opts now v s))) \<le> maxHistory opts"
proof -
  from ok obtain k where k: "position s = of_int k" "0 \<le> k" "k < int (length (history s))"
    by (rule position_okD)
  define m where "m = \<lfloor>maxHistory opts\<rfloor>"
  have M: "maxHistory opts = of_int m" unfolding m_def using whole by (rule is_integerD)
  have m1': "1 \<le> m" using m1 unfolding M by simp
  define g where "g = (of_int (now - lastUpdateTime s) < groupingInterval opts \<and> 0 < k)"
  define h where "h = (if g then take (nat k) (history s) @ [v] else take (nat (k + 1)) (history s) @ [v])"
  define q where "q = (if g then k else k + 1)"
  have lh: "int (length h) = q + 1"
    using k len_take_snoc [of k "history s" v] len_take_snoc [of "k + 1" "history s" v]
    by (simp add: h_def q_def)
  have q0: "0 \<le> q" using k(2) by (simp add: q_def)
  have eq: "set_value opts now v s =
      (if of_nat (length h) > maxHistory opts
         then \<lparr>history = slice_from h (of_nat (length h) - maxHistory opts),
               position = max 0 (of_int q - (of_nat (length h) - maxHistory opts)),
               lastUpdateTime = now\<rparr>
         else \<lparr>history = h, position = of_int q, lastUpdateTime = now\<rparr>)"
    unfolding set_value_whole [OF k(1,2)] Let_def g_def h_def q_def ..
  have lh': "rat_of_nat (length h) = of_int (q + 1)"
    using lh by (metis of_int_of_nat_eq)
  have "position_ok (set_value opts now v s)
      \<and> rat_of_nat (length (history (set_value opts now v s))) \<le> maxHistory opts"
  proof (cases "of_nat (length h) > maxHistory opts")
    case False
    then have e: "set_value opts now v s = \<lparr>history = h, position = of_int q, lastUpdateTime = now\<rparr>"
      by (simp add: eq)
    have "position_ok (set_value opts now v s)"
      unfolding e by (rule position_okI [of _ q]) (use lh q0 in simp_all)
    moreover have "rat_of_nat (length (history (set_value opts now v s))) \<le> maxHistory opts"
      unfolding e using False by simp
    ultimately show ?thesis ..
  next
    case True
    then have big: "m < q + 1" unfolding lh' M by simp
    have t: "of_nat (length h) - maxHistory opts = rat_of_int (q + 1 - m)"
      unfolding lh' M by simp
    have t0: "0 \<le> q + 1 - m" using big by simp
    have hist: "slice_from h (of_nat (length h) - maxHistory opts) = drop (nat (q + 1 - m)) h"
      unfolding t using t0 by (rule slice_from_of_int)
    have pos: "max 0 (of_int q - (of_nat (length h) - maxHistory opts)) = rat_of_int (m - 1)"
      unfolding t using m1' by simp
    have e: "set_value opts now v s =
        \<lparr>history = drop (nat (q + 1 - m)) h, position = of_int (m - 1), lastUpdateTime = now\<rparr>"
      using True by (simp only: eq if_True hist pos)
    have ld: "int (length (drop (nat (q + 1 - m)) h)) = m"
      using lh big m1' by simp
    have "position_ok (set_value opts now v s)"
      unfolding e by (rule position_okI [of _ "m - 1"]) (use ld m1' in simp_all)
    moreover have "rat_of_nat (length (drop (nat (q + 1 - m)) h)) = of_int m"
      using ld by (metis of_int_of_nat_eq)
    then have "rat_of_nat (length (history (set_value opts now v s))) \<le> maxHistory opts"
      unfolding e M by simp
    ultimately show ?thesis ..
  qed
  then show "position_ok (set_value opts now v s)"
    and "rat_of_nat (length (history (set_value opts now v s))) \<le> maxHistory opts"
    by simp_all
qed


lemma useUndoRedo_position_ok: "position_ok (useUndoRedo v)"
  by (rule position_okI [of _ 0]) (simp_all add: useUndoRedo_def)

lemma undo_position_ok:
  assumes "position_ok s"
  shows "position_ok (undo s)"
proof (cases "position s > 0")
  case False
  with assms show ?thesis by (simp add: undo_def)
next
  case True
  from assms obtain k where k: "position s = of_int k" "0 \<le> k" "k < int (length (history s))"
    by (rule position_okD)
  from True k(1) have "0 < k" by simp
  with k have "position_ok (s\<lparr>position := position s - 1\<rparr>)"
    by (intro position_okI [of _ "k - 1"]) simp_all
  with True show ?thesis by (simp add: undo_def)
qed

lemma redo_position_ok:
  assumes "position_ok s"
  shows "position_ok (redo s)"
proof (cases "position s < of_nat (length (history s)) - 1")
  case False
  with assms show ?thesis by (simp add: redo_def)
next
  case True
  from assms obtain k where k: "position s = of_int k" "0 \<le> k" "k < int (length (history s))"
    by (rule position_okD)
  from True k(1) have "rat_of_int k < of_int (int (length (history s)) - 1)" by simp
  then have "k < int (length (history s)) - 1" by (simp only: of_int_less_iff)
  with k have "position_ok (s\<lparr>position := position s + 1\<rparr>)"
    by (intro position_okI [of _ "k + 1"]) simp_all
  with True show ?thesis by (simp add: redo_def)
qed

lemma reset_position_ok: "position_ok (reset v s)"
  by (rule position_okI [of _ 0]) (simp_all add: reset_def)

lemma reachable_position_ok:
  assumes "is_integer (maxHistory opts)" and "1 \<le> maxHistory opts" and "reachable opts s"
  shows "position_ok s \<and> rat_of_nat (length (history s)) \<le> maxHistory opts"
  using assms(3)
proof (induction rule: reachable.induct)
  case (r_init v)
  then show ?case using assms(2) useUndoRedo_position_ok [of v] by (simp add: useUndoRedo_def)
next
  case (r_set s now v)
  then have ok: "position_ok s" by simp
  show ?case
    using set_value_position_ok(1) [OF assms(1,2) ok, of now v]
      set_value_position_ok(2) [OF assms(1,2) ok, of now v] by simp
next
  case (r_undo s)
  then show ?case using undo_position_ok [of s] by (simp add: undo_def)
next
  case (r_redo s)
  then show ?case using redo_position_ok [of s] by (simp add: redo_def)
next
  case (r_reset s v)
  then show ?case using assms(2) reset_position_ok [of v s] by (simp add: reset_def)
qed


lemma set_calls_non_grouped:
  assumes "non_grouped opts cs s"
    and "position s = of_int (int (length (history s)) - 1)" and "history s \<noteq> []"
    and "rat_of_nat (length (history s)) + of_nat (length cs) \<le> maxHistory opts"
  shows "position (set_calls opts cs s) = of_int (int (length (history (set_calls opts cs s))) - 1)
       \<and> length (history (set_calls opts cs s)) = length (history s) + length cs"
  using assms
proof (induction cs arbitrary: s)
  case Nil
  then show ?case by simp
next
  case (Cons c cs)
  obtain now v where c: "c = (now, v)" by (cases c)
  have ne: "0 < length (history s)" using Cons.prems(3) by simp
  have ok: "position_ok s"
    using Cons.prems(2) ne by (intro position_okI [of _ "int (length (history s)) - 1"]) simp_all
  have ng: "\<not> (of_int (now - lastUpdateTime s) < groupingInterval opts \<and> position s > 0)"
    using Cons.prems(1) c by simp
  have pl: "position s + 1 = rat_of_nat (length (history s))"
    using Cons.prems(2) by simp
  have room: "position s + 2 \<le> maxHistory opts"
    using Cons.prems(4) pl by simp
  let ?s' = "set_value opts now v s"
  have fl: "\<lfloor>position s\<rfloor> = int (length (history s)) - 1"
    unfolding Cons.prems(2) by (rule floor_of_int)
  have tk: "take (nat (\<lfloor>position s\<rfloor> + 1)) (history s) = history s"
    unfolding fl by simp
  have s': "?s' = \<lparr>history = history s @ [v], position = position s + 1, lastUpdateTime = now\<rparr>"
    using set_value_append [OF ok ng room, of v] unfolding tk .
  have a: "non_grouped opts cs ?s'" using Cons.prems(1) c by simp
  have b: "position ?s' = of_int (int (length (history ?s')) - 1)"
    unfolding s' using pl by simp
  have d: "history ?s' \<noteq> []" by (simp add: s')
  have e: "rat_of_nat (length (history ?s')) + of_nat (length cs) \<le> maxHistory opts"
    using Cons.prems(4) by (simp add: s')
  have len: "length (history ?s') = length (history s) + 1" by (simp add: s')
  from Cons.IH [OF a b d e] len show ?case by (simp add: c)
qed


text \<open>
  Claim C2, as the code has it. After \<open>n\<close> calls of \<^verbatim>\<open>set\<close>, each finding the elapsed time at least the
  grouping interval, with \<open>n + 1 \<le> maxHistory\<close>: the history length is \<open>n + 1\<close> and
  \<^verbatim>\<open>canRedo\<close> is false; when \<open>n \<ge> 1\<close>, \<^verbatim>\<open>canUndo\<close> is true and one \<^verbatim>\<open>undo\<close> makes \<^verbatim>\<open>canRedo\<close>
  true. The bound is on the number \<^verbatim>\<open>maxHistory\<close> as it is, whole or not.
\<close>
theorem history_after_non_grouped_sets:
  assumes "non_grouped opts cs (useUndoRedo initial)"
    and "rat_of_nat (length cs) + 1 \<le> maxHistory opts"
  shows "historyLength (set_calls opts cs (useUndoRedo initial)) = int (length cs) + 1
       \<and> \<not> canRedo (set_calls opts cs (useUndoRedo initial))
       \<and> (cs \<noteq> [] \<longrightarrow> canUndo (set_calls opts cs (useUndoRedo initial))
                    \<and> canRedo (undo (set_calls opts cs (useUndoRedo initial))))"
proof -
  let ?s = "set_calls opts cs (useUndoRedo initial)"
  have run: "position ?s = of_int (int (length (history ?s)) - 1)
           \<and> length (history ?s) = length (history (useUndoRedo initial)) + length cs"
    by (rule set_calls_non_grouped [OF assms(1)]) (use assms(2) in \<open>simp_all add: useUndoRedo_def\<close>)
  then have len: "length (history ?s) = length cs + 1"
    by (simp add: useUndoRedo_def)
  from run have pos: "position ?s = of_nat (length cs)"
    unfolding len by simp
  have "cs \<noteq> [] \<Longrightarrow> 0 < length cs" by simp
  then show ?thesis
    using pos len by (simp add: historyLength_def canRedo_def canUndo_def undo_def)
qed

text \<open>
  Two calls, 1000 ms apart, under the default options.
\<close>
theorem history_after_non_grouped_sets_witness:
  "non_grouped default_options [(1000, ''a''), (2000, ''b'')] (useUndoRedo ''i'')
   \<and> rat_of_nat (length [(1000::int, ''a''), (2000, ''b'')]) + 1 \<le> maxHistory default_options
   \<and> historyLength (set_calls default_options [(1000, ''a''), (2000, ''b'')] (useUndoRedo ''i'')) = 3
   \<and> \<not> canRedo (set_calls default_options [(1000, ''a''), (2000, ''b'')] (useUndoRedo ''i''))
   \<and> canUndo (set_calls default_options [(1000, ''a''), (2000, ''b'')] (useUndoRedo ''i''))
   \<and> canRedo (undo (set_calls default_options [(1000, ''a''), (2000, ''b'')] (useUndoRedo ''i'')))"
proof -
  have h1: "non_grouped default_options [(1000, ''a''), (2000, ''b'')] (useUndoRedo ''i'')"
    by (simp add: default_options_def useUndoRedo_def set_value_def slice_def slice_from_def relative_index_def to_integer_def)
  have h2: "rat_of_nat (length [(1000::int, ''a''), (2000, ''b'')]) + 1 \<le> maxHistory default_options"
    by (simp add: default_options_def)
  show ?thesis
    using h1 h2 history_after_non_grouped_sets [OF h1 h2] by simp
qed


lemma trace_two: "set_calls \<lparr>maxHistory = 2, groupingInterval = 300\<rparr>
     [(1000, ''a''), (2000, ''b'')] (useUndoRedo ''i'')
   = \<lparr>history = [''a'', ''b''], position = 1, lastUpdateTime = 2000\<rparr>"
  by (simp add: useUndoRedo_def set_value_def slice_def slice_from_def relative_index_def
      to_integer_def)

lemma trace_zero: "set_value \<lparr>maxHistory = 0, groupingInterval = 300\<rparr> 1000 ''a'' (useUndoRedo ''i'')
   = \<lparr>history = [], position = 0, lastUpdateTime = 1000\<rparr>"
  by (simp add: useUndoRedo_def set_value_def slice_def slice_from_def relative_index_def
      to_integer_def)

lemma trace_fraction: "set_calls \<lparr>maxHistory = 5 / 2, groupingInterval = 300\<rparr>
     [(1000, ''a''), (2000, ''b'')] (useUndoRedo ''i'')
   = \<lparr>history = [''i'', ''a'', ''b''], position = 3 / 2, lastUpdateTime = 2000\<rparr>"
  by (simp add: useUndoRedo_def set_value_def slice_def slice_from_def relative_index_def
      to_integer_def)


text \<open>
  Claim C2 as stated allows \<open>n = maxHistory\<close> and \<open>n = 0\<close>. With \<open>maxHistory = 2\<close>, two
  non-grouped calls leave two entries, not three: the trim drops the initial entry. With no
  call at all, \<^verbatim>\<open>canUndo\<close> is false.
\<close>
theorem history_length_counterexample:
  "rat_of_nat (length [(1000::int, ''a''), (2000, ''b'')]) \<le> maxHistory \<lparr>maxHistory = 2, groupingInterval = 300\<rparr>
   \<and> non_grouped \<lparr>maxHistory = 2, groupingInterval = 300\<rparr> [(1000, ''a''), (2000, ''b'')] (useUndoRedo ''i'')
   \<and> historyLength (set_calls \<lparr>maxHistory = 2, groupingInterval = 300\<rparr>
                       [(1000, ''a''), (2000, ''b'')] (useUndoRedo ''i''))
       \<noteq> int (length [(1000::int, ''a''), (2000, ''b'')]) + 1
   \<and> history (set_calls \<lparr>maxHistory = 2, groupingInterval = 300\<rparr>
                       [(1000, ''a''), (2000, ''b'')] (useUndoRedo ''i'')) = [''a'', ''b'']
   \<and> rat_of_nat (length ([] :: (int \<times> string) list)) \<le> maxHistory \<lparr>maxHistory = 2, groupingInterval = 300\<rparr>
   \<and> non_grouped \<lparr>maxHistory = 2, groupingInterval = 300\<rparr> [] (useUndoRedo ''i'')
   \<and> \<not> canUndo (set_calls \<lparr>maxHistory = 2, groupingInterval = 300\<rparr> [] (useUndoRedo ''i''))"
proof -
  have "non_grouped \<lparr>maxHistory = 2, groupingInterval = 300\<rparr> [(1000, ''a''), (2000, ''b'')] (useUndoRedo ''i'')"
    by (simp add: useUndoRedo_def set_value_def slice_def slice_from_def relative_index_def to_integer_def)
  then show ?thesis
    unfolding trace_two by (simp add: historyLength_def canUndo_def useUndoRedo_def)
qed

text \<open>
  Claim C4, as the code has it. When \<^verbatim>\<open>maxHistory\<close> is an integer and at least 1: the initial
  state satisfies \<open>0 \<le> position < entries.length\<close> with a whole position, every reachable state
  does, and \<^verbatim>\<open>set\<close> (grouped or not, trimming or not), \<^verbatim>\<open>undo\<close>, \<^verbatim>\<open>redo\<close> and \<^verbatim>\<open>reset\<close> each
  preserve it.
\<close>
theorem position_invariant:
  assumes "is_integer (maxHistory opts)" and "1 \<le> maxHistory opts"
  shows "position_ok (useUndoRedo initial)
       \<and> (reachable opts s \<longrightarrow> position_ok s)
       \<and> (position_ok s \<longrightarrow> position_ok (set_value opts now v s) \<and> position_ok (undo s)
                            \<and> position_ok (redo s) \<and> position_ok (reset v s))"
  using reachable_position_ok [OF assms, of s] set_value_position_ok(1) [OF assms, of s now v]
    undo_position_ok [of s] redo_position_ok [of s] reset_position_ok [of v s]
    useUndoRedo_position_ok [of initial]
  by simp

text \<open>
  Under the default options, the state after one edit and one undo, then an edit 1100 ms
  after the first.
\<close>
theorem position_invariant_witness:
  "is_integer (maxHistory default_options) \<and> 1 \<le> maxHistory default_options
   \<and> reachable default_options (undo (set_value default_options 1000 ''a'' (useUndoRedo ''i'')))
   \<and> position_ok (undo (set_value default_options 1000 ''a'' (useUndoRedo ''i'')))
   \<and> position_ok (set_value default_options 1100 ''b'' (undo (set_value default_options 1000 ''a'' (useUndoRedo ''i''))))
   \<and> position_ok (redo (undo (set_value default_options 1000 ''a'' (useUndoRedo ''i''))))"
proof -
  have w: "is_integer (maxHistory default_options)" by (simp add: default_options_def is_integer_def)
  have h: "1 \<le> maxHistory default_options" by (simp add: default_options_def)
  have r: "reachable default_options (undo (set_value default_options 1000 ''a'' (useUndoRedo ''i'')))"
    by (intro r_undo r_set r_init)
  show ?thesis
    using w h r position_invariant [OF w h, where initial = "''i''" and now = 1100 and v = "''b''"
        and s = "undo (set_value default_options 1000 ''a'' (useUndoRedo ''i''))"]
    by simp
qed

text \<open>
  Claim C4 as stated covers every option value. With \<open>maxHistory = 0\<close> the first \<^verbatim>\<open>set\<close> trims
  every entry away: the history is empty and the position is 0, which is not below the length.
  With \<open>maxHistory = 5/2\<close>, which is at least 1, two non-grouped calls leave three entries
  (\<^verbatim>\<open>slice(0.5)\<close> drops nothing) at position \<open>2 - 1/2 = 3/2\<close>, and two calls of \<^verbatim>\<open>undo\<close> bring
  the position to \<open>-1/2\<close>, below 0.
\<close>
theorem position_invariant_counterexample:
  "reachable \<lparr>maxHistory = 0, groupingInterval = 300\<rparr>
     (set_value \<lparr>maxHistory = 0, groupingInterval = 300\<rparr> 1000 ''a'' (useUndoRedo ''i''))
   \<and> history (set_value \<lparr>maxHistory = 0, groupingInterval = 300\<rparr> 1000 ''a'' (useUndoRedo ''i'')) = []
   \<and> position (set_value \<lparr>maxHistory = 0, groupingInterval = 300\<rparr> 1000 ''a'' (useUndoRedo ''i'')) = 0
   \<and> \<not> position_ok (set_value \<lparr>maxHistory = 0, groupingInterval = 300\<rparr> 1000 ''a'' (useUndoRedo ''i''))
   \<and> 1 \<le> maxHistory \<lparr>maxHistory = 5 / 2, groupingInterval = 300\<rparr>
   \<and> reachable \<lparr>maxHistory = 5 / 2, groupingInterval = 300\<rparr>
       (undo (undo (set_calls \<lparr>maxHistory = 5 / 2, groupingInterval = 300\<rparr>
          [(1000, ''a''), (2000, ''b'')] (useUndoRedo ''i''))))
   \<and> position (undo (undo (set_calls \<lparr>maxHistory = 5 / 2, groupingInterval = 300\<rparr>
          [(1000, ''a''), (2000, ''b'')] (useUndoRedo ''i'')))) = - (1 / 2)
   \<and> \<not> position_ok (undo (undo (set_calls \<lparr>maxHistory = 5 / 2, groupingInterval = 300\<rparr>
          [(1000, ''a''), (2000, ''b'')] (useUndoRedo ''i''))))"
proof -
  have a: "reachable \<lparr>maxHistory = 0, groupingInterval = 300\<rparr>
     (set_value \<lparr>maxHistory = 0, groupingInterval = 300\<rparr> 1000 ''a'' (useUndoRedo ''i''))"
    by (intro r_set r_init)
  have b: "reachable \<lparr>maxHistory = 5 / 2, groupingInterval = 300\<rparr>
       (undo (undo (set_calls \<lparr>maxHistory = 5 / 2, groupingInterval = 300\<rparr>
          [(1000, ''a''), (2000, ''b'')] (useUndoRedo ''i''))))"
    unfolding set_calls.simps by (intro r_undo r_set r_init)
  have c: "undo (undo (set_calls \<lparr>maxHistory = 5 / 2, groupingInterval = 300\<rparr>
          [(1000, ''a''), (2000, ''b'')] (useUndoRedo ''i'')))
      = \<lparr>history = [''i'', ''a'', ''b''], position = - (1 / 2), lastUpdateTime = 2000\<rparr>"
    unfolding trace_fraction by (simp add: undo_def)
  show ?thesis
    unfolding c trace_zero using a [unfolded trace_zero] b [unfolded c]
    by (simp add: position_ok_def)
qed




subsection \<open>Path engine\<close>

lemma obj_get_update: "obj_get (AList.update k v kvs) k = v"
  by (simp add: obj_get_def update_conv')

text \<open>Whatever the number, reading the copy at it returns what was stored.\<close>

lemma arr_get_arr_set:
  "\<exists>ys qs. arr_set xs ps n v = Arr ys qs \<and> arr_get ys qs n = v"
proof (cases n)
  case None
  then show ?thesis by (simp add: arr_set_def arr_get_def obj_get_update)
next
  case (Some i)
  consider (inside) "0 \<le> i \<and> i < int (length xs)"
    | (extend) "\<not> (0 \<le> i \<and> i < int (length xs))" "0 \<le> i \<and> i < 4294967295"
    | (outside) "\<not> (0 \<le> i \<and> i < int (length xs))" "\<not> (0 \<le> i \<and> i < 4294967295)"
    by blast
  then show ?thesis
  proof cases
    case inside
    have s: "arr_set xs ps n v = Arr (xs[nat i := v]) ps"
      using inside by (auto simp: arr_set_def Some)
    have "0 \<le> i \<and> i < int (length (xs[nat i := v]))" using inside by simp
    then have g: "arr_get (xs[nat i := v]) ps n = xs[nat i := v] ! nat i"
      by (simp add: arr_get_def Some)
    have "nat i < length xs" using inside by linarith
    then have "xs[nat i := v] ! nat i = v" by simp
    with s g show ?thesis by simp
  next
    case extend
    let ?ys = "xs @ replicate (nat i - length xs) Undefined @ [v]"
    have s: "arr_set xs ps n v = Arr ?ys ps"
      using extend by (auto simp: arr_set_def Some)
    have ge: "length xs \<le> nat i" using extend by linarith
    have "0 \<le> i \<and> i < int (length ?ys)" using ge extend(2) by simp
    then have g: "arr_get ?ys ps n = ?ys ! nat i"
      by (simp add: arr_get_def Some)
    have "?ys ! nat i = v" using ge by (simp add: nth_append)
    with s g show ?thesis by simp
  next
    case outside
    let ?qs = "AList.update (number_key n) v ps"
    have s: "arr_set xs ps n v = Arr xs ?qs"
      using outside by (auto simp: arr_set_def Some)
    have g: "arr_get xs ?qs n = obj_get ?qs (number_key n)"
      using outside(1) by (auto simp: arr_get_def Some)
    from s g show ?thesis by (simp add: obj_get_update)
  qed
qed

text \<open>
  The loop of \<^verbatim>\<open>getByPath\<close> after \<^verbatim>\<open>setBySegments\<close>, by induction on the segments: a path that the
  loop can follow through \<open>current\<close> leads to the stored value afterwards.
\<close>

lemma get_set_segments:
  "getByPath_loop current segments \<noteq> Undefined \<Longrightarrow>
   getByPath_loop (setBySegments current segments v) segments = v"
proof (induction segments arbitrary: current)
  case Nil
  then show ?case by simp
next
  case (Cons segment segments)
  show ?case
  proof (cases current)
    case (Arr xs ps)
    from Cons.prems Arr have idx: "parseInt segment \<noteq> None"
      and sub: "getByPath_loop (arr_get xs ps (parseInt segment)) segments \<noteq> Undefined"
      by (auto simp: Let_def split: if_splits)
    let ?w = "setBySegments (arr_get xs ps (parseInt segment)) segments v"
    obtain ys qs where w: "arr_set xs [] (parseInt segment) ?w = Arr ys qs"
      and r: "arr_get ys qs (parseInt segment) = ?w"
      using arr_get_arr_set by blast
    show ?thesis
      using Arr idx w r Cons.IH [OF sub] by (auto simp: Let_def)
  next
    case (Obj kvs)
    from Cons.prems Obj
    have sub: "getByPath_loop (obj_get kvs segment) segments \<noteq> Undefined" by simp
    show ?thesis
      using Obj Cons.IH [OF sub] by (simp add: obj_get_update)
  qed (use Cons.prems in simp_all)
qed

text \<open>
  Claim C1. A path \<open>p\<close> is present in \<open>v\<close> when \<^verbatim>\<open>getByPath(v, p)\<close> is not \<^verbatim>\<open>undefined\<close>. For every
  value \<open>v\<close>, every path present in it and every \<open>x\<close>, reading \<open>p\<close> in \<^verbatim>\<open>setByPath(v, p, x)\<close>
  returns \<open>x\<close>.
\<close>

theorem get_after_set:
  "getByPath v p \<noteq> Undefined \<Longrightarrow> getByPath (setByPath v p x) p = x"
  by (auto simp: getByPath_def setByPath_def get_set_segments)

text \<open>
  The document \<^verbatim>\<open>{"items": [{"id": 1}, {"id": 2}]}\<close> and the path \<^verbatim>\<open>$.items[1].id\<close>.
\<close>

theorem get_after_set_witness:
  "getByPath (Obj [(''items'', Arr [Obj [(''id'', Num 1)], Obj [(''id'', Num 2)]] [])]) ''$.items[1].id''
     \<noteq> Undefined
   \<and> getByPath (setByPath (Obj [(''items'', Arr [Obj [(''id'', Num 1)], Obj [(''id'', Num 2)]] [])])
                  ''$.items[1].id'' (Str ''x'')) ''$.items[1].id'' = Str ''x''"
proof -
  have p: "parsePath ''$.items[1].id'' = [''items'', ''1'', ''id'']"
    by (simp add: parsePath_def match_bracket_def is_digit_def)
  have i: "parseInt ''1'' = Some 1"
    by (simp add: parseInt_def is_space_def is_digit_def decimal_def digit_value_def)
  have h: "getByPath (Obj [(''items'', Arr [Obj [(''id'', Num 1)], Obj [(''id'', Num 2)]] [])])
             ''$.items[1].id'' \<noteq> Undefined"
    by (simp add: getByPath_def p i obj_get_def arr_get_def)
  show ?thesis
    using h get_after_set [OF h, of "Str ''x''"] by simp
qed

subsection \<open>Validator\<close>

text \<open>
  The schema \<^verbatim>\<open>{type: 'number', minimum: 0}\<close>.
\<close>

lemma number_schema:
  "with_minimum 0 (with_type (TypeName ''number'') empty_schema)
   = JSONSchema (Some (TypeName ''number'')) None None None None (Some 0) None None None None
       None None None None None None None None None"
  by (simp add: with_minimum_def with_type_def empty_schema_def)

text \<open>
  Claim C3. On every host and at every path (\<^verbatim>\<open>$\<close> by default),
  \<^verbatim>\<open>validateSchema(-5, {type: 'number', minimum: 0})\<close> returns one error, whose keyword is
  \<^verbatim>\<open>minimum\<close> and whose actual value is \<open>-5\<close>; the type check adds none, \<open>-5\<close> being an
  integer and \<^verbatim>\<open>number\<close> being allowed.
\<close>

theorem negative_five_minimum:
  "validateSchema h (Num (- 5)) (with_minimum 0 (with_type (TypeName ''number'') empty_schema)) p
     = Inr \<lparr>valid = False,
            errors = [\<lparr>message = ''Value must be >= '' @ number_toString h 0, path = p,
                       severity = error, schemaKeyword = ''minimum'', schemaRule = Num 0,
                       actualValue = Num (- 5)\<rparr>]\<rparr>
   \<and> validate_type (Num (- 5)) (with_minimum 0 (with_type (TypeName ''number'') empty_schema)) p = []"
proof -
  let ?s = "with_minimum 0 (with_type (TypeName ''number'') empty_schema)"
  have int5: "is_integer (- 5)" by (simp add: is_integer_def)
  have t: "validate_type (Num (- 5)) ?s p = []"
    by (simp add: number_schema validate_type_def type_truthy_def getJsonType_def int5)
  have e: "validate_enum h (Num (- 5)) ?s p = []"
    by (simp add: number_schema validate_enum_def)
  have s: "validate_string h (Num (- 5)) ?s p = Inr []"
    by (simp add: validate_string_def)
  have n: "validate_number h (Num (- 5)) ?s p
             = [makeError (''Value must be >= '' @ number_toString h 0) p ''minimum'' (Num 0) (Num (- 5))]"
    by (simp add: number_schema validate_number_def)
  have a: "validate_array h (Num (- 5)) ?s p = []"
    by (simp add: validate_array_def)
  have ob: "validate_object h (Num (- 5)) ?s p = []"
    by (simp add: validate_object_def)
  have "validate_errors h (Num (- 5)) ?s p
          = Inr [makeError (''Value must be >= '' @ number_toString h 0) p ''minimum'' (Num 0) (Num (- 5))]"
    by (simp add: t e s n a ob)
  then show ?thesis
    using t by (simp add: validateSchema_def result_of_def makeError_def)
qed

text \<open>On the example host the message reads \<^verbatim>\<open>Value must be >= 0\<close>.\<close>

theorem negative_five_minimum_witness:
  "validateSchema example_host (Num (- 5))
     (with_minimum 0 (with_type (TypeName ''number'') empty_schema)) ''$''
     = Inr \<lparr>valid = False,
            errors = [\<lparr>message = ''Value must be >= 0'', path = ''$'',
                       severity = error, schemaKeyword = ''minimum'', schemaRule = Num 0,
                       actualValue = Num (- 5)\<rparr>]\<rparr>"
  using negative_five_minimum [of example_host "''$''"]
  by (simp add: example_host_def int_string_def digit_char_def)

text \<open>
  Claim C10. For a schema without \<^verbatim>\<open>type\<close>, \<^verbatim>\<open>validateSchema(null, schema)\<close> is valid with no
  error, whatever else the schema holds: the function returns at line 25, before any other
  check.
\<close>

theorem null_without_type:
  assumes "type_field schema = None"
  shows "validateSchema h Null schema p = Inr \<lparr>valid = True, errors = []\<rparr>"
  using assms by (simp add: validateSchema_def validate_null_def result_of_def)

text \<open>The schema \<^verbatim>\<open>{enum: [1]}\<close>, whose enum does not contain \<^verbatim>\<open>null\<close>.\<close>

theorem null_without_type_witness:
  "type_field (with_enum [Num 1] empty_schema) = None
   \<and> \<not> list_ex (\<lambda>e. deepEqual example_host e Null) [Num 1]
   \<and> validateSchema example_host Null (with_enum [Num 1] empty_schema) ''$''
       = Inr \<lparr>valid = True, errors = []\<rparr>"
proof -
  have t: "type_field (with_enum [Num 1] empty_schema) = None"
    by (simp add: with_enum_def empty_schema_def)
  have e: "\<not> list_ex (\<lambda>e. deepEqual example_host e Null) [Num 1]"
    by (simp add: deepEqual_def strict_equal_def typeof_def)
  show ?thesis
    using t e null_without_type [OF t, of example_host "''$''"] by simp
qed

subsection \<open>Tree builder\<close>

text \<open>
  Only \<^verbatim>\<open>undefined\<close> gives no node.
\<close>

lemma buildTree_None: "buildTree v p key depth expandedPaths = None \<longleftrightarrow> v = Undefined"
  by (cases v) (simp_all add: Let_def)

text \<open>
  The children that are built: one for each child value that is not \<^verbatim>\<open>undefined\<close>.
\<close>

lemma length_buildTree_keys:
  "length (buildTree_keys kvs p depth expandedPaths)
     = length (filter (\<lambda>kv. snd kv \<noteq> Undefined) kvs)"
proof (induction kvs)
  case Nil
  then show ?case by simp
next
  case (Cons kv kvs)
  obtain k v where kv: "kv = (k, v)" by (cases kv)
  show ?case
  proof (cases "buildTree v (p @ ''.'' @ k) (KeyName k) depth expandedPaths")
    case None
    then have "v = Undefined" by (simp add: buildTree_None)
    with None Cons.IH show ?thesis by (simp add: kv)
  next
    case (Some node)
    then have "v \<noteq> Undefined" using buildTree_None by force
    with Some Cons.IH show ?thesis by (simp add: kv)
  qed
qed

lemma length_buildTree_items:
  "length (buildTree_items xs i p depth expandedPaths)
     = length (filter (\<lambda>x. x \<noteq> Undefined) xs)"
proof (induction xs arbitrary: i)
  case Nil
  then show ?case by simp
next
  case (Cons x xs)
  show ?case
  proof (cases "buildTree x (p @ ''['' @ nat_string i @ '']'') (KeyIndex i) depth expandedPaths")
    case None
    then have "x = Undefined" by (simp add: buildTree_None)
    with None Cons.IH [of "Suc i"] show ?thesis by simp
  next
    case (Some node)
    then have "x \<noteq> Undefined" using buildTree_None by force
    with Some Cons.IH [of "Suc i"] show ?thesis by simp
  qed
qed

text \<open>
  Claim C7. For an object and for an array, whatever the expansion set, \<^verbatim>\<open>buildTree\<close> returns a
  node whose \<^verbatim>\<open>childCount\<close> is the number of keys, or of elements. When the path of the node is
  not in the expansion set its \<^verbatim>\<open>children\<close> are empty; when it is, they are the nodes of the
  children, one for each child that is not \<^verbatim>\<open>undefined\<close>.
\<close>

theorem childCount_and_children:
  "(\<exists>node. buildTree (Obj kvs) p key depth expandedPaths = Some node
           \<and> node_childCount node = length kvs
           \<and> (p \<notin> expandedPaths \<longrightarrow> node_children node = [])
           \<and> (p \<in> expandedPaths \<longrightarrow>
                 node_children node = buildTree_keys kvs p (depth + 1) expandedPaths
                 \<and> length (node_children node) = length (filter (\<lambda>kv. snd kv \<noteq> Undefined) kvs)))
   \<and> (\<exists>node. buildTree (Arr xs ps) p key depth expandedPaths = Some node
           \<and> node_childCount node = length xs
           \<and> (p \<notin> expandedPaths \<longrightarrow> node_children node = [])
           \<and> (p \<in> expandedPaths \<longrightarrow>
                 node_children node = buildTree_items xs 0 p (depth + 1) expandedPaths
                 \<and> length (node_children node) = length (filter (\<lambda>x. x \<noteq> Undefined) xs)))"
  by (simp add: Let_def length_buildTree_keys length_buildTree_items)

text \<open>
  The document \<^verbatim>\<open>{"a": 1, "b": [1, 2]}\<close> with only the root expanded: the root has two
  children, and the collapsed array \<^verbatim>\<open>b\<close> still counts two.
\<close>

theorem childCount_and_children_witness:
  "(\<exists>node. buildTree (Obj [(''a'', Num 1), (''b'', Arr [Num 1, Num 2] [])]) ''$'' (KeyName ''root'') 0 {''$''}
             = Some node
           \<and> node_childCount node = 2
           \<and> length (node_children node) = 2
           \<and> map node_path (node_children node) = [''$.a'', ''$.b'']
           \<and> map node_childCount (node_children node) = [0, 2]
           \<and> map node_children (node_children node) = [[], []])
   \<and> (\<exists>node. buildTree (Arr [Num 1, Num 2] []) ''$.b'' (KeyName ''b'') 1 {''$''} = Some node
           \<and> node_childCount node = 2 \<and> node_children node = [])"
  using childCount_and_children [of "[(''a'', Num 1), (''b'', Arr [Num 1, Num 2] [])]" "''$''"
      "KeyName ''root''" 0 "{''$''}" "[Num 1, Num 2]" "[]"]
    childCount_and_children [of "[]" "''$.b''" "KeyName ''b''" 1 "{''$''}" "[Num 1, Num 2]" "[]"]
  by (simp add: Let_def)

subsection \<open>Search engine\<close>

text \<open>
  The loop on one line ends: each round moves \<^verbatim>\<open>lastIndex\<close> forward, by the width of the match
  or by one, and \<^verbatim>\<open>exec\<close> returns \<^verbatim>\<open>null\<close> once it is beyond the end of the line. By
  induction on the distance left.
\<close>

lemma exec_loop_ends:
  assumes ok: "matcher_ok regex"
  shows "\<exists>ms. exec_loop regex l i k = Some ms
           \<and> sorted_wrt precedes ms
           \<and> (\<forall>m \<in> set ms. line m = i + 1 \<and> k \<le> columnStart m
                  \<and> columnStart m \<le> columnEnd m \<and> columnEnd m \<le> length l)"
proof (induction "Suc (length l) - k" arbitrary: k rule: less_induct)
  case less
  show ?case
  proof (cases "k > length l")
    case True
    then show ?thesis by (subst exec_loop.simps) simp
  next
    case inside: False
    show ?thesis
    proof (cases "regex l k")
      case None
      then show ?thesis using inside by (subst exec_loop.simps) simp
    next
      case (Some r)
      obtain index len where r: "r = (index, len)" by (cases r)
      from ok Some r have bounds: "k \<le> index" "index + len \<le> length l"
        by (auto simp: matcher_ok_def)
      define k' where "k' = (if index = index + len then index + len + 1 else index + len)"
      have k': "k < k'" "index + len \<le> k'" "index < k'"
        using bounds by (auto simp: k'_def)
      have "Suc (length l) - k' < Suc (length l) - k"
        using k'(1) inside by linarith
      from less [OF this] obtain ms where
        ms: "exec_loop regex l i k' = Some ms" "sorted_wrt precedes ms"
        and each: "\<forall>m \<in> set ms. line m = i + 1 \<and> k' \<le> columnStart m
                     \<and> columnStart m \<le> columnEnd m \<and> columnEnd m \<le> length l"
        by blast
      let ?m = "\<lparr>line = i + 1, columnStart = index, columnEnd = index + len,
                 matchText = take len (drop index l)\<rparr>"
      have eq: "exec_loop regex l i k = Some (?m # ms)"
        using inside Some r ms(1) by (subst exec_loop.simps) (simp add: k'_def)
      have before: "\<forall>m \<in> set ms. precedes ?m m"
        using each k'(2,3) by (auto simp: precedes_def)
      have "\<forall>m \<in> set (?m # ms). line m = i + 1 \<and> k \<le> columnStart m
              \<and> columnStart m \<le> columnEnd m \<and> columnEnd m \<le> length l"
        using each bounds k'(1) by auto
      with eq ms(2) before show ?thesis by auto
    qed
  qed
qed

text \<open>
  The loop over the lines: the matches of a line lie before those of the lines after it.
\<close>

lemma scan_lines_ends:
  assumes ok: "matcher_ok regex"
  shows "\<exists>ms. scan_lines regex ls i = Some ms
           \<and> sorted_wrt precedes ms
           \<and> (\<forall>m \<in> set ms. i < line m \<and> columnStart m \<le> columnEnd m)"
proof (induction ls arbitrary: i)
  case Nil
  then show ?case by simp
next
  case (Cons l ls)
  from exec_loop_ends [OF ok, of l i 0] obtain ms where
    ms: "exec_loop regex l i 0 = Some ms" "sorted_wrt precedes ms"
    and each: "\<forall>m \<in> set ms. line m = i + 1 \<and> columnStart m \<le> columnEnd m"
    by auto
  from Cons.IH [of "Suc i"] obtain more where
    more: "scan_lines regex ls (Suc i) = Some more" "sorted_wrt precedes more"
    and later: "\<forall>m \<in> set more. Suc i < line m \<and> columnStart m \<le> columnEnd m"
    by auto
  have cross: "\<forall>a \<in> set ms. \<forall>b \<in> set more. precedes a b"
    using each later by (auto simp: precedes_def)
  have "scan_lines regex (l # ls) i = Some (ms @ more)"
    using ms(1) more(1) by simp
  moreover have "sorted_wrt precedes (ms @ more)"
    using ms(2) more(2) cross by (simp add: sorted_wrt_append)
  moreover have "\<forall>m \<in> set (ms @ more). i < line m \<and> columnStart m \<le> columnEnd m"
    using each later by auto
  ultimately show ?case by blast
qed

text \<open>
  Claim C8. On a host whose expressions report matches at or after the start index and
  within the text, for every query, text and options the match extraction ends and returns
  a list in which every match lies before every later one (no two overlap, and no two are
  the same). This covers expressions that match the empty string: after a match of width
  zero the scan index is moved forward by one.
\<close>

theorem matches_terminate:
  assumes "host_ok h"
  shows "\<exists>ms. matches h query text caseSensitive useRegex = Some ms
           \<and> sorted_wrt precedes ms
           \<and> (\<forall>m \<in> set ms. 1 \<le> line m \<and> columnStart m \<le> columnEnd m)"
proof (cases "query = [] \<or> text = []")
  case True
  then show ?thesis by (auto simp: matches_def)
next
  case False
  define pat where "pat = (if useRegex then query else escapeRegex query)"
  show ?thesis
  proof (cases "regexp_search h pat (\<not> caseSensitive)")
    case None
    then show ?thesis using False by (auto simp: matches_def pat_def)
  next
    case (Some regex)
    with assms have "matcher_ok regex" by (auto simp: host_ok_def)
    from scan_lines_ends [OF this, of "split CHR 0x0A text" 0] obtain ms where
      "scan_lines regex (split CHR 0x0A text) 0 = Some ms" "sorted_wrt precedes ms"
      "\<forall>m \<in> set ms. 0 < line m \<and> columnStart m \<le> columnEnd m"
      by auto
    then show ?thesis
      using False Some by (auto simp: matches_def pat_def)
  qed
qed

text \<open>
  The two example hosts meet the condition.
\<close>

lemma empty_matcher_ok: "matcher_ok empty_matcher"
  by (auto simp: matcher_ok_def empty_matcher_def split: if_splits)

lemma empty_regexp_host_ok: "host_ok empty_regexp_host"
  by (simp add: host_ok_def empty_regexp_host_def empty_matcher_ok)

lemma literal_from_bounds:
  "literal_from needle s i = Some j \<Longrightarrow> i \<le> j \<and> j + length needle \<le> i + length s"
proof (induction needle s i rule: literal_from.induct)
  case (1 needle i)
  then show ?case by (auto split: if_splits)
next
  case (2 needle c cs i)
  show ?case
  proof (cases "take (length needle) (c # cs) = needle")
    case True
    then have "length (take (length needle) (c # cs)) = length needle" by simp
    then have "min (length (c # cs)) (length needle) = length needle"
      by (simp only: length_take)
    then have "length needle \<le> length (c # cs)" by linarith
    with True 2 show ?thesis by simp
  next
    case False
    with 2 show ?thesis by auto
  qed
qed

lemma literal_matcher_ok: "matcher_ok (literal_matcher needle)"
  by (auto simp: matcher_ok_def literal_matcher_def split: if_splits dest!: literal_from_bounds)

lemma example_host_ok: "host_ok example_host"
  by (simp add: host_ok_def example_host_def literal_matcher_ok)

text \<open>
  On the host where every expression matches the empty string, the line \<^verbatim>\<open>ab\<close> has three
  matches of width zero, at 0, 1 and 2. On the literal host, \<^verbatim>\<open>John\<close> is found twice.
\<close>

theorem matches_terminate_witness:
  "host_ok empty_regexp_host
   \<and> matches empty_regexp_host ''x*'' ''ab'' False True
       = Some [\<lparr>line = 1, columnStart = 0, columnEnd = 0, matchText = ''''\<rparr>,
               \<lparr>line = 1, columnStart = 1, columnEnd = 1, matchText = ''''\<rparr>,
               \<lparr>line = 1, columnStart = 2, columnEnd = 2, matchText = ''''\<rparr>]
   \<and> host_ok example_host
   \<and> matches example_host ''John'' ''{name: John, fullName: John Doe}'' False False
       = Some [\<lparr>line = 1, columnStart = 7, columnEnd = 11, matchText = ''John''\<rparr>,
               \<lparr>line = 1, columnStart = 23, columnEnd = 27, matchText = ''John''\<rparr>]"
proof -
  have a: "matches empty_regexp_host ''x*'' ''ab'' False True
       = Some [\<lparr>line = 1, columnStart = 0, columnEnd = 0, matchText = ''''\<rparr>,
               \<lparr>line = 1, columnStart = 1, columnEnd = 1, matchText = ''''\<rparr>,
               \<lparr>line = 1, columnStart = 2, columnEnd = 2, matchText = ''''\<rparr>]"
    by (simp add: matches_def empty_regexp_host_def empty_matcher_def exec_loop.simps)
  have b: "matches example_host ''John'' ''{name: John, fullName: John Doe}'' False False
       = Some [\<lparr>line = 1, columnStart = 7, columnEnd = 11, matchText = ''John''\<rparr>,
               \<lparr>line = 1, columnStart = 23, columnEnd = 27, matchText = ''John''\<rparr>]"
    by (simp add: matches_def example_host_def escapeRegex_def literal_matcher_def exec_loop.simps Let_def eval_nat_numeral)
  show ?thesis
    using a b empty_regexp_host_ok example_host_ok
      matches_terminate [OF empty_regexp_host_ok, of "''x*''" "''ab''" False True]
      matches_terminate [OF example_host_ok, of "''John''" "''{name: John, fullName: John Doe}''" False False]
    by simp
qed

subsection \<open>Parser and formatter\<close>

text \<open>
  The bound on the depth of the parser is never reached. First, every part of the parser
  that succeeds reads at least one character.
\<close>

lemma strip_prefix_shorter:
  "p \<noteq> [] \<Longrightarrow> strip_prefix p s = Some r \<Longrightarrow> length r < length s"
  by (cases p; cases s) (auto split: if_splits dest: strip_prefix_length)

lemma string_chars_shorter:
  "parse_string_chars s = Some (str, rest) \<Longrightarrow> length rest < length s"
proof (induction s arbitrary: str rest rule: length_induct)
  case (1 s)
  show ?case
  proof (cases s)
    case Nil
    with 1 show ?thesis by simp
  next
    case (Cons c cs)
    note IH = 1(1) [rule_format]
    show ?thesis
      using 1(2) Cons
      by (auto split: if_splits list.splits option.splits prod.splits dest!: IH [rotated])
  qed
qed


lemma dropWhile_shorter: "takeWhile P xs \<noteq> [] \<Longrightarrow> length (dropWhile P xs) < length xs"
  by (induction xs) (auto split: if_splits intro: le_imp_less_Suc length_dropWhile_le)

lemma parse_sign_length: "parse_sign s = (neg, r) \<Longrightarrow> length r \<le> length s"
  by (auto simp: parse_sign_def split: list.splits if_splits)

lemma parse_int_digits_shorter: "parse_int_digits s = Some (ds, r) \<Longrightarrow> length r < length s"
  using length_dropWhile_le [of is_digit]
  by (auto simp: parse_int_digits_def split: list.splits if_splits intro: le_imp_less_Suc)

lemma parse_fraction_length: "parse_fraction s = Some (ds, r) \<Longrightarrow> length r \<le> length s"
  using length_dropWhile_le [of is_digit]
  by (auto simp: parse_fraction_def split: list.splits if_splits intro: le_SucI)

lemma parse_exponent_length: "parse_exponent s = Some (e, r) \<Longrightarrow> length r \<le> length s"
  using length_dropWhile_le [of is_digit]
  by (auto simp: parse_exponent_def Let_def split: list.splits if_splits prod.splits
        intro: le_SucI order_trans)

lemma parse_number_shorter:
  assumes "parse_number s = Some (x, rest)"
  shows "length rest < length s"
proof -
  obtain neg s1 where a: "parse_sign s = (neg, s1)" by (cases "parse_sign s")
  from assms a obtain ds s2 where b: "parse_int_digits s1 = Some (ds, s2)"
    by (auto simp: parse_number_def split: option.splits)
  from assms a b obtain fd s3 where c: "parse_fraction s2 = Some (fd, s3)"
    by (auto simp: parse_number_def split: option.splits)
  from assms a b c obtain e where d: "parse_exponent s3 = Some (e, rest)"
    by (auto simp: parse_number_def Let_def split: option.splits)
  from parse_sign_length [OF a] parse_int_digits_shorter [OF b] parse_fraction_length [OF c]
    parse_exponent_length [OF d]
  show ?thesis by linarith
qed


lemma skip_ws_length: "length (skip_ws s) \<le> length s"
  by (simp add: skip_ws_def length_dropWhile_le)

lemma skip_ws_Cons: "skip_ws s = c # r \<Longrightarrow> length r < length s"
  using skip_ws_length [of s] by simp

text \<open>
  One more level of each of the three functions, given the levels below.
\<close>

lemma parse_value_step:
  assumes mem: "\<And>s acc v r. parse_members n s acc = Some (v, r) \<Longrightarrow> length r < length s"
    and el: "\<And>s acc v r. parse_elements n s acc = Some (v, r) \<Longrightarrow> length r < length s"
    and pv: "parse_value (Suc n) s = Some (v, r)"
  shows "length r < length s"
proof (cases s)
  case Nil
  with pv show ?thesis by simp
next
  case (Cons c cs)
  consider (obj) "c = CHR ''{''" | (arr) "c \<noteq> CHR ''{''" "c = CHR ''[''"
    | (str) "c \<noteq> CHR ''{''" "c \<noteq> CHR ''[''" "c = CHR 0x22"
    | (lit) "c \<noteq> CHR ''{''" "c \<noteq> CHR ''[''" "c \<noteq> CHR 0x22" "c = CHR ''t'' \<or> c = CHR ''f'' \<or> c = CHR ''n''"
    | (num) "c \<noteq> CHR ''{''" "c \<noteq> CHR ''[''" "c \<noteq> CHR 0x22" "c \<noteq> CHR ''t''" "c \<noteq> CHR ''f''" "c \<noteq> CHR ''n''"
    by blast
  then show ?thesis
  proof cases
    case obj
    show ?thesis
    proof (cases "skip_ws cs")
      case Nil
      with pv Cons obj show ?thesis by simp
    next
      case (Cons d r0)
      note sk = this
      from skip_ws_Cons [OF sk] have r0: "length r0 < length cs" .
      show ?thesis
      proof (cases "d = CHR ''}''")
        case True
        with pv \<open>s = c # cs\<close> obj sk r0 show ?thesis by simp
      next
        case False
        with pv \<open>s = c # cs\<close> obj sk have "parse_members n (d # r0) [] = Some (v, r)" by simp
        from mem [OF this] r0 \<open>s = c # cs\<close> show ?thesis by simp
      qed
    qed
  next
    case arr
    show ?thesis
    proof (cases "skip_ws cs")
      case Nil
      with pv Cons arr show ?thesis by simp
    next
      case (Cons d r0)
      note sk = this
      from skip_ws_Cons [OF sk] have r0: "length r0 < length cs" .
      show ?thesis
      proof (cases "d = CHR '']''")
        case True
        with pv \<open>s = c # cs\<close> arr sk r0 show ?thesis by simp
      next
        case False
        with pv \<open>s = c # cs\<close> arr sk have "parse_elements n (d # r0) [] = Some (v, r)" by simp
        from el [OF this] r0 \<open>s = c # cs\<close> show ?thesis by simp
      qed
    qed
  next
    case str
    with pv Cons obtain t where "parse_string_chars cs = Some (t, r)" by auto
    from string_chars_shorter [OF this] Cons show ?thesis by simp
  next
    case lit
    with pv Cons have "strip_prefix ''true'' s = Some r \<or> strip_prefix ''false'' s = Some r
        \<or> strip_prefix ''null'' s = Some r"
      by (auto simp del: strip_prefix.simps)
    then show ?thesis by (auto dest: strip_prefix_shorter [rotated])
  next
    case num
    with pv Cons obtain x where "parse_number s = Some (x, r)" by auto
    from parse_number_shorter [OF this] show ?thesis .
  qed
qed

lemma parse_elements_step:
  assumes pv: "\<And>s v r. parse_value n s = Some (v, r) \<Longrightarrow> length r < length s"
    and el: "\<And>s acc v r. parse_elements n s acc = Some (v, r) \<Longrightarrow> length r < length s"
    and pe: "parse_elements (Suc n) s acc = Some (v, r)"
  shows "length r < length s"
proof -
  from pe obtain w r0 where a: "parse_value n s = Some (w, r0)"
    by (cases "parse_value n s") auto
  from pv [OF a] have r0: "length r0 < length s" .
  from pe a obtain c r1 where sk: "skip_ws r0 = c # r1"
    by (cases "skip_ws r0") auto
  from skip_ws_Cons [OF sk] have r1: "length r1 < length r0" .
  show ?thesis
  proof (cases "c = CHR '',''")
    case True
    with pe a sk have "parse_elements n (skip_ws r1) (acc @ [w]) = Some (v, r)" by simp
    from el [OF this] skip_ws_length [of r1] r1 r0 show ?thesis by linarith
  next
    case False
    with pe a sk have "r = r1" by (auto split: if_splits)
    with r1 r0 show ?thesis by simp
  qed
qed

lemma parse_members_step:
  assumes pv: "\<And>s v r. parse_value n s = Some (v, r) \<Longrightarrow> length r < length s"
    and mem: "\<And>s acc v r. parse_members n s acc = Some (v, r) \<Longrightarrow> length r < length s"
    and pm: "parse_members (Suc n) s acc = Some (v, r)"
  shows "length r < length s"
proof -
  from pm obtain cs where s: "s = CHR 0x22 # cs"
    by (cases s) (auto split: if_splits)
  from pm s obtain k r0 where a: "parse_string_chars cs = Some (k, r0)"
    by (cases "parse_string_chars cs") auto
  from string_chars_shorter [OF a] have r0: "length r0 < length cs" .
  from pm s a obtain c r1 where sk: "skip_ws r0 = c # r1"
    by (cases "skip_ws r0") auto
  from skip_ws_Cons [OF sk] have r1: "length r1 < length r0" .
  from pm s a sk have c: "c = CHR '':''" by (auto split: if_splits)
  from pm s a sk c obtain w r2 where b: "parse_value n (skip_ws r1) = Some (w, r2)"
    by (cases "parse_value n (skip_ws r1)") auto
  from pv [OF b] skip_ws_length [of r1] have r2: "length r2 < length r1" by linarith
  from pm s a sk c b obtain d r3 where sk2: "skip_ws r2 = d # r3"
    by (cases "skip_ws r2") auto
  from skip_ws_Cons [OF sk2] have r3: "length r3 < length r2" .
  show ?thesis
  proof (cases "d = CHR '',''")
    case True
    with pm s a sk c b sk2
    have "parse_members n (skip_ws r3) (AList.update k w acc) = Some (v, r)" by simp
    from mem [OF this] skip_ws_length [of r3] r3 r2 r1 r0 s show ?thesis by simp
  next
    case False
    with pm s a sk c b sk2 have "r = r3" by (auto split: if_splits)
    with r3 r2 r1 r0 s show ?thesis by simp
  qed
qed

lemma parse_shorter:
  "(parse_value n s = Some (v, r) \<longrightarrow> length r < length s)
   \<and> (parse_elements n s xs = Some (v, r) \<longrightarrow> length r < length s)
   \<and> (parse_members n s kvs = Some (v, r) \<longrightarrow> length r < length s)"
proof (induction n arbitrary: s xs kvs v r)
  case 0
  then show ?case by simp
next
  case (Suc n)
  have pv: "\<And>s v r. parse_value n s = Some (v, r) \<Longrightarrow> length r < length s"
    using Suc by blast
  have el: "\<And>s acc v r. parse_elements n s acc = Some (v, r) \<Longrightarrow> length r < length s"
    using Suc by blast
  have mem: "\<And>s acc v r. parse_members n s acc = Some (v, r) \<Longrightarrow> length r < length s"
    using Suc by blast
  have a: "length r < length s" if "parse_value (Suc n) s = Some (v, r)"
    using mem el that by (rule parse_value_step)
  have b: "length r < length s" if "parse_elements (Suc n) s xs = Some (v, r)"
    using pv el that by (rule parse_elements_step)
  have c: "length r < length s" if "parse_members (Suc n) s kvs = Some (v, r)"
    using pv mem that by (rule parse_members_step)
  from a b c show ?case by blast
qed


text \<open>
  With a bound above twice the length of the text, one more level changes no result: the
  bound \<open>2 * length text + 2\<close> of \<open>JSON_parse\<close> stands for any larger one, and \<open>None\<close> is a
  text that the grammar rejects.
\<close>

lemma fuel_step:
  "(2 * length s < n \<longrightarrow> parse_value (Suc n) s = parse_value n s)
   \<and> (2 * length s + 1 < n \<longrightarrow> parse_elements (Suc n) s xs = parse_elements n s xs)
   \<and> (2 * length s + 1 < n \<longrightarrow> parse_members (Suc n) s kvs = parse_members n s kvs)"
proof (induction n arbitrary: s xs kvs)
  case 0
  then show ?case by simp
next
  case (Suc n)
  have pv: "parse_value (Suc n) s = parse_value n s" if "2 * length s < n" for s
    using Suc that by blast
  have el: "parse_elements (Suc n) s xs = parse_elements n s xs" if "2 * length s + 1 < n" for s xs
    using Suc that by blast
  have mem: "parse_members (Suc n) s kvs = parse_members n s kvs" if "2 * length s + 1 < n" for s kvs
    using Suc that by blast
  have a: "parse_value (Suc (Suc n)) s = parse_value (Suc n) s" if big: "2 * length s < Suc n"
  proof (cases s)
    case Nil
    then show ?thesis by simp
  next
    case (Cons c cs)
    show ?thesis
    proof (cases "skip_ws cs")
      case Nil
      with Cons show ?thesis by simp
    next
      case sk: (Cons d r0)
      from skip_ws_Cons [OF sk] Cons big have "2 * length (d # r0) + 1 < n" by simp
      from mem [OF this] el [OF this]
      have m: "parse_members (Suc n) (d # r0) [] = parse_members n (d # r0) []"
        and e: "parse_elements (Suc n) (d # r0) [] = parse_elements n (d # r0) []"
        by blast+
      show ?thesis
        apply (subst parse_value.simps(2))
        apply (subst parse_value.simps(2))
        using m e
        apply (auto simp add: Cons sk simp del: parse_value.simps parse_elements.simps parse_members.simps)
        done
    qed
  qed
  have b: "parse_elements (Suc (Suc n)) s xs = parse_elements (Suc n) s xs"
    if big: "2 * length s + 1 < Suc n"
  proof -
    from big have v: "parse_value (Suc n) s = parse_value n s" by (intro pv) simp
    show ?thesis
    proof (cases "parse_value n s")
      case None
      with v show ?thesis by simp
    next
      case (Some p)
      obtain w r0 where p: "p = (w, r0)" by (cases p)
      from Some p parse_shorter [of n s w r0] have r0: "length r0 < length s" by blast
      show ?thesis
      proof (cases "skip_ws r0")
        case Nil
        with v Some p show ?thesis by simp
      next
        case sk: (Cons c r1)
        from skip_ws_Cons [OF sk] r0 skip_ws_length [of r1] big
        have "2 * length (skip_ws r1) + 1 < n" by linarith
        from el [OF this]
        have e: "parse_elements (Suc n) (skip_ws r1) (xs @ [w]) = parse_elements n (skip_ws r1) (xs @ [w])" .
        show ?thesis
          apply (subst parse_elements.simps(2) [of "Suc n" s xs])
          apply (subst parse_elements.simps(2) [of n s xs])
          using e
          apply (auto simp add: v Some p sk simp del: parse_value.simps parse_elements.simps parse_members.simps)
          done
      qed
    qed
  qed
  have c: "parse_members (Suc (Suc n)) s kvs = parse_members (Suc n) s kvs"
    if big: "2 * length s + 1 < Suc n"
  proof (cases s)
    case Nil
    then show ?thesis by simp
  next
    case (Cons q cs)
    show ?thesis
    proof (cases "parse_string_chars cs")
      case None
      with Cons show ?thesis by simp
    next
      case (Some p)
      obtain k r0 where p: "p = (k, r0)" by (cases p)
      from Some p string_chars_shorter have r0: "length r0 < length cs" by blast
      show ?thesis
      proof (cases "skip_ws r0")
        case Nil
        with Cons Some p show ?thesis by simp
      next
        case sk: (Cons c r1)
        from skip_ws_Cons [OF sk] have r1: "length r1 < length r0" .
        from r1 r0 Cons skip_ws_length [of r1] big have "2 * length (skip_ws r1) < n" by simp
        from pv [OF this] have v: "parse_value (Suc n) (skip_ws r1) = parse_value n (skip_ws r1)" .
        show ?thesis
        proof (cases "parse_value n (skip_ws r1)")
          case None
          with v Cons Some p sk show ?thesis by simp
        next
          case pv2: (Some p2)
          obtain w r2 where p2: "p2 = (w, r2)" by (cases p2)
          from pv2 p2 parse_shorter [of n "skip_ws r1" w r2]
          have "length r2 < length (skip_ws r1)" by blast
          with skip_ws_length [of r1] have r2: "length r2 < length r1" by linarith
          show ?thesis
          proof (cases "skip_ws r2")
            case Nil
            with v Cons Some p sk pv2 p2 show ?thesis by simp
          next
            case sk2: (Cons d r3)
            from skip_ws_Cons [OF sk2] r2 r1 r0 Cons skip_ws_length [of r3] big
            have "2 * length (skip_ws r3) + 1 < n" by simp
            from mem [OF this]
            have m: "parse_members (Suc n) (skip_ws r3) (AList.update k w kvs)
                       = parse_members n (skip_ws r3) (AList.update k w kvs)" .
            show ?thesis
              apply (subst parse_members.simps(2) [of "Suc n" s kvs])
              apply (subst parse_members.simps(2) [of n s kvs])
              using m
              apply (auto simp add: Cons Some p sk v pv2 p2 sk2
                  simp del: parse_value.simps parse_elements.simps parse_members.simps)
              done
          qed
        qed
      qed
    qed
  qed
  from a b c show ?case by blast
qed

lemma fuel_enough:
  assumes "2 * length s < n"
  shows "parse_value (n + k) s = parse_value n s"
proof (induction k)
  case 0
  then show ?case by simp
next
  case (Suc k)
  from assms have "2 * length s < n + k" by simp
  with fuel_step [of s "n + k"] have "parse_value (Suc (n + k)) s = parse_value (n + k) s" by blast
  with Suc show ?case by simp
qed

lemma JSON_parse_fuel:
  assumes "2 * length t + 2 \<le> n"
  shows "(case parse_value n (skip_ws t) of
            None \<Rightarrow> None
          | Some (v, rest) \<Rightarrow> if skip_ws rest = [] then Some v else None) = JSON_parse t"
proof -
  from assms obtain k where n: "n = (2 * length t + 2) + k"
    using le_Suc_ex by blast
  have "2 * length (skip_ws t) < 2 * length t + 2"
    using skip_ws_length [of t] by simp
  from fuel_enough [OF this, of k] show ?thesis
    by (simp only: n JSON_parse_def)
qed

text \<open>
  \<^verbatim>\<open>JSON.parse\<close> never returns \<^verbatim>\<open>undefined\<close>, so \<^verbatim>\<open>JSON.stringify\<close> of what it returns, sorted or
  not, is a string: the last branch of the three formatter functions is never taken.
\<close>

lemma parse_defined:
  "(parse_value n s = Some (v, r) \<longrightarrow> v \<noteq> Undefined)
   \<and> (parse_elements n s xs = Some (v, r) \<longrightarrow> v \<noteq> Undefined)
   \<and> (parse_members n s kvs = Some (v, r) \<longrightarrow> v \<noteq> Undefined)"
proof (induction n arbitrary: s xs kvs v r)
  case 0
  then show ?case by simp
next
  case (Suc n)
  have a: "parse_value (Suc n) s = Some (v, r) \<longrightarrow> v \<noteq> Undefined"
    using Suc [of "_" v r "[]" "[]"]
    by (auto split: list.splits if_splits)
  have b: "parse_elements (Suc n) s xs = Some (v, r) \<longrightarrow> v \<noteq> Undefined"
    using Suc by (auto split: list.splits if_splits option.splits prod.splits)
  have c: "parse_members (Suc n) s kvs = Some (v, r) \<longrightarrow> v \<noteq> Undefined"
    using Suc by (auto split: list.splits if_splits option.splits prod.splits)
  from a b c show ?case by blast
qed

lemma accepted_defined:
  assumes "(case parse_value n s of None \<Rightarrow> None
            | Some (w, rest) \<Rightarrow> if skip_ws rest = [] then Some w else None) = Some v"
  shows "v \<noteq> Undefined"
proof (cases "parse_value n s")
  case None
  with assms show ?thesis by simp
next
  case (Some p)
  obtain w r where p: "p = (w, r)" by (cases p)
  from assms Some p have "w = v" by (simp split: if_splits)
  with Some p parse_defined [of n s v r] show ?thesis by blast
qed

lemma JSON_parse_defined: "JSON_parse t = Some v \<Longrightarrow> v \<noteq> Undefined"
  unfolding JSON_parse_def by (rule accepted_defined)

lemma stringify_defined: "v \<noteq> Undefined \<Longrightarrow> JSON_stringify h v sp \<noteq> None"
  by (cases v) (simp_all add: JSON_stringify_def Let_def)

lemma deepSortKeys_defined: "v \<noteq> Undefined \<Longrightarrow> deepSortKeys h order v \<noteq> Undefined"
  by (cases v) simp_all

text \<open>
  Claim C5. For a text that \<^verbatim>\<open>JSON.parse\<close> rejects, \<^verbatim>\<open>formatJson\<close>, \<^verbatim>\<open>minifyJson\<close> and
  \<^verbatim>\<open>sortJsonKeys\<close> each return the text itself, for every indentation and order. None of them
  throws: the \<^verbatim>\<open>catch\<close> of each covers its whole body, so each has a string for result.
\<close>

theorem invalid_text_unchanged:
  assumes "JSON_parse t = None"
  shows "formatJson h t indent = t \<and> minifyJson h t = t \<and> sortJsonKeys h t order indent = t"
  using assms by (simp add: formatJson_def minifyJson_def sortJsonKeys_def)

text \<open>
  The text \<^verbatim>\<open>{bad json}\<close> of the unit tests.
\<close>

theorem invalid_text_unchanged_witness:
  "JSON_parse ''{bad json}'' = None
   \<and> formatJson example_host ''{bad json}'' Indent2 = ''{bad json}''
   \<and> minifyJson example_host ''{bad json}'' = ''{bad json}''
   \<and> sortJsonKeys example_host ''{bad json}'' Asc Indent2 = ''{bad json}''"
proof -
  have p: "JSON_parse ''{bad json}'' = None" by code_simp
  show ?thesis
    using p invalid_text_unchanged [OF p, of example_host Indent2 Asc] by simp
qed

text \<open>
  A text of white space only is trimmed to the empty string.
\<close>

lemma trim_spaces:
  assumes "list_all is_space t"
  shows "trim t = []"
proof -
  from assms have d: "dropWhile is_space t = []"
    by (induction t) auto
  show ?thesis unfolding trim_def d by simp
qed

text \<open>
  Claim C6. For a text of white space only, the empty text included, \<^verbatim>\<open>parseJson\<close> returns the
  value \<^verbatim>\<open>undefined\<close> and the error \<^verbatim>\<open>null\<close>; and \<^verbatim>\<open>isValidJson\<close> of the empty text is false.
\<close>

theorem whitespace_text:
  assumes "list_all is_space t"
  shows "parseJson h t = \<lparr>result_value = Undefined, result_error = None\<rparr> \<and> \<not> isValidJson []"
proof -
  have "JSON_parse [] = None" by (simp add: JSON_parse_def skip_ws_def)
  then show ?thesis
    using trim_spaces [OF assms] by (simp add: parseJson_def isValidJson_def)
qed

text \<open>
  A space, a line feed and a tab; and the empty text.
\<close>

theorem whitespace_text_witness:
  "list_all is_space [CHR 0x20, CHR 0x0A, CHR 0x09]
   \<and> parseJson example_host [CHR 0x20, CHR 0x0A, CHR 0x09]
       = \<lparr>result_value = Undefined, result_error = None\<rparr>
   \<and> parseJson example_host [] = \<lparr>result_value = Undefined, result_error = None\<rparr>
   \<and> \<not> isValidJson []"
proof -
  have s: "list_all is_space [CHR 0x20, CHR 0x0A, CHR 0x09]" by (simp add: is_space_def)
  have e: "list_all is_space []" by simp
  show ?thesis
    using s whitespace_text [OF s, of example_host] whitespace_text [OF e, of example_host] by simp
qed

end
